theory Spec2Isabelle
  imports Main "HOL-Library.Sublist"
begin

section \<open>Python strings\<close>

text \<open>
  The converter works on Python \<open>str\<close> values. They are modelled as \<^typ>\<open>string\<close>
  (lists of 8-bit characters), so the model covers ASCII text: the case conversions
  below change the letters A-Z / a-z only and leave every other character alone.
  An \<open>Optional[str]\<close> is a \<^typ>\<open>string option\<close>; Python's truth test on it
  (\<open>if x:\<close>, \<open>x or d\<close>) is false for \<open>None\<close> and for the empty string.
\<close>

definition truthy :: "string option \<Rightarrow> bool" where
  "truthy x = (case x of None \<Rightarrow> False | Some s \<Rightarrow> s \<noteq> [])"

definition or_else :: "string option \<Rightarrow> string \<Rightarrow> string" where
  "or_else x d = (case x of None \<Rightarrow> d | Some s \<Rightarrow> if s = [] then d else s)"

definition upper_letters :: string where
  "upper_letters = ''ABCDEFGHIJKLMNOPQRSTUVWXYZ''"

definition lower_letters :: string where
  "lower_letters = ''abcdefghijklmnopqrstuvwxyz''"

definition digit_chars :: string where
  "digit_chars = ''0123456789''"

definition is_upper :: "char \<Rightarrow> bool" where
  "is_upper c = (c \<in> set upper_letters)"

definition is_lower :: "char \<Rightarrow> bool" where
  "is_lower c = (c \<in> set lower_letters)"

definition is_digit :: "char \<Rightarrow> bool" where
  "is_digit c = (c \<in> set digit_chars)"

definition lower_char :: "char \<Rightarrow> char" where
  "lower_char c = (case map_of (zip upper_letters lower_letters) c of Some d \<Rightarrow> d | None \<Rightarrow> c)"

definition upper_char :: "char \<Rightarrow> char" where
  "upper_char c = (case map_of (zip lower_letters upper_letters) c of Some d \<Rightarrow> d | None \<Rightarrow> c)"

definition lower :: "string \<Rightarrow> string" where
  "lower s = map lower_char s"

definition upper :: "string \<Rightarrow> string" where
  "upper s = map upper_char s"

text \<open>\<open>sub in s\<close> for strings: \<open>sub\<close> occurs as a contiguous piece of \<open>s\<close>.\<close>

fun contains :: "string \<Rightarrow> string \<Rightarrow> bool" where
  "contains sub [] = (sub = [])"
| "contains sub (x # xs) = (prefix sub (x # xs) \<or> contains sub xs)"

text \<open>
  \<open>s.split(sep, 1)\<close> and \<open>s.rsplit(sep, 1)\<close> for a separator that occurs in \<open>s\<close>:
  the pieces left and right of its first (last) occurrence; \<open>None\<close> when it does
  not occur (Python then returns the one-element list \<open>[s]\<close>).
\<close>

fun split1 :: "string \<Rightarrow> string \<Rightarrow> (string \<times> string) option" where
  "split1 sep [] = (if sep = [] then Some ([], []) else None)"
| "split1 sep (x # xs) =
     (if prefix sep (x # xs) then Some ([], drop (length sep) (x # xs))
      else (case split1 sep xs of None \<Rightarrow> None | Some (a, b) \<Rightarrow> Some (x # a, b)))"

definition rsplit1 :: "string \<Rightarrow> string \<Rightarrow> (string \<times> string) option" where
  "rsplit1 sep s =
     (case split1 (rev sep) (rev s) of None \<Rightarrow> None | Some (a, b) \<Rightarrow> Some (rev b, rev a))"

text \<open>\<open>s.split(c)\<close> for a one-character separator: never the empty list.\<close>

fun split_on :: "char \<Rightarrow> string \<Rightarrow> string list" where
  "split_on c [] = [[]]"
| "split_on c (x # xs) =
     (if x = c then [] # split_on c xs
      else (case split_on c xs of [] \<Rightarrow> [[x]] | w # ws \<Rightarrow> (x # w) # ws))"

text \<open>
  Whitespace as \<open>str.strip()\<close> and \<open>str.split()\<close> see it in ASCII: space, the
  control characters 9-13 and 28-31.
\<close>

definition is_space :: "char \<Rightarrow> bool" where
  "is_space c = (c \<in> set [CHR '' '', CHR 0x09, CHR 0x0A, CHR 0x0B, CHR 0x0C, CHR 0x0D,
                            CHR 0x1C, CHR 0x1D, CHR 0x1E, CHR 0x1F])"

definition strip_chars :: "(char \<Rightarrow> bool) \<Rightarrow> string \<Rightarrow> string" where
  "strip_chars p s = rev (dropWhile p (rev (dropWhile p s)))"

definition strip :: "string \<Rightarrow> string" where
  "strip s = strip_chars is_space s"

definition rstrip_char :: "char \<Rightarrow> string \<Rightarrow> string" where
  "rstrip_char c s = rev (dropWhile (\<lambda>x. x = c) (rev s))"

text \<open>\<open>s.split()\<close>: the maximal runs of non-whitespace characters.\<close>

fun split_ws_acc :: "string \<Rightarrow> string \<Rightarrow> string list" where
  "split_ws_acc w [] = (if w = [] then [] else [rev w])"
| "split_ws_acc w (x # xs) =
     (if is_space x then (if w = [] then split_ws_acc [] xs else rev w # split_ws_acc [] xs)
      else split_ws_acc (x # w) xs)"

definition split_ws :: "string \<Rightarrow> string list" where
  "split_ws s = split_ws_acc [] s"

section \<open>Data model\<close>

text \<open>
  The dataclasses of the converter. Field names are the source's, with the class as a
  prefix where several classes share a name. A \<open>dict\<close> whose iteration order matters
  (annotation details) is an association list in insertion order.

  \<open>EClass\<close> objects are mutated in place by the resolver and are shared between the
  package tree and the flattened package list, so packages hold them by reference:
  \<open>classes\<close> is a list of addresses into a store of class objects. The attributes and
  references of a class are created with it and owned by it alone, and are held by value.
\<close>

record EAnnotation =
  source :: string
  details :: "(string \<times> string) list"

record EEnumLiteral =
  lit_name :: string
  lit_value :: int

record EEnum =
  enum_name :: string
  literals :: "EEnumLiteral list"
  enum_package_name :: string
  enum_annotations :: "EAnnotation list"

record EAttribute =
  attr_name :: string
  attr_e_type :: string
  attr_lower_bound :: int
  attr_upper_bound :: int
  default_value :: "string option"
  attr_source_hint :: "string option"
  attr_annotations :: "EAnnotation list"

record EReference =
  ref_name :: string
  ref_e_type :: string
  containment :: bool
  ref_lower_bound :: int
  ref_upper_bound :: int
  opposite :: "string option"
  resolved_package :: "string option"
  ref_source_hint :: "string option"
  ref_annotations :: "EAnnotation list"

record EClass =
  cls_name :: string
  abstract :: bool
  interface :: bool
  super_types :: "string list"
  attributes :: "EAttribute list"
  references :: "EReference list"
  cls_package_name :: string
  resolved_supers :: "(string \<times> string) list"
  cls_annotations :: "EAnnotation list"

record EDataType =
  dt_name :: string
  instance_class_name :: "string option"

type_synonym addr = nat

type_synonym class_store = "addr \<Rightarrow> EClass"

datatype EPackage =
  EPackage (pkg_name: string) (ns_uri: string) (ns_prefix: string)
    (classes: "addr list") (enums: "EEnum list") (data_types: "EDataType list")
    (sub_packages: "EPackage list") (source_file: string)
    (pkg_annotations: "EAnnotation list")

section \<open>Built-in type table\<close>

definition ECORE_TO_PROTO_TYPE :: "(string \<times> string) list" where
  "ECORE_TO_PROTO_TYPE =
     [(''EString'', ''string''),
      (''EInt'', ''int32''),
      (''EInteger'', ''int32''),
      (''ELong'', ''int64''),
      (''EFloat'', ''float''),
      (''EDouble'', ''double''),
      (''EBoolean'', ''bool''),
      (''EByte'', ''int32''),
      (''EShort'', ''int32''),
      (''EChar'', ''string''),
      (''EDate'', ''google.protobuf.Timestamp''),
      (''EBigInteger'', ''int64''),
      (''EBigDecimal'', ''string''),
      (''EByteArray'', ''bytes''),
      (''EResource'', ''string''),
      (''EJavaObject'', ''google.protobuf.Any''),
      (''EJavaClass'', ''string''),
      (''EFeatureMapEntry'', ''google.protobuf.Any''),
      (''EMap'', ''google.protobuf.Struct''),
      (''EEList'', ''google.protobuf.ListValue''),
      (''ETreeIterator'', ''string''),
      (''EEnumerator'', ''int32''),
      (''java.lang.String'', ''string''),
      (''java.lang.Integer'', ''int32''),
      (''java.lang.Long'', ''int64''),
      (''java.lang.Float'', ''float''),
      (''java.lang.Double'', ''double''),
      (''java.lang.Boolean'', ''bool''),
      (''java.lang.Byte'', ''int32''),
      (''java.lang.Short'', ''int32''),
      (''java.lang.Character'', ''string''),
      (''java.util.Date'', ''google.protobuf.Timestamp''),
      (''java.math.BigInteger'', ''int64''),
      (''java.math.BigDecimal'', ''string''),
      (''int'', ''int32''),
      (''long'', ''int64''),
      (''float'', ''float''),
      (''double'', ''double''),
      (''boolean'', ''bool''),
      (''byte'', ''int32''),
      (''short'', ''int32''),
      (''char'', ''string'')]"

text \<open>\<open>name in ECORE_TO_PROTO_TYPE\<close> and \<open>ECORE_TO_PROTO_TYPE[name]\<close>.\<close>

definition proto_type_of :: "string \<Rightarrow> string option" where
  "proto_type_of t = map_of ECORE_TO_PROTO_TYPE t"

section \<open>Parser\<close>

text \<open>
  An element of the parsed XML tree, as \<open>xml.etree.ElementTree\<close> hands it over: the
  tag (with the namespace in braces in front), the attribute dictionary and the child
  elements in document order.
\<close>

datatype Elem = Elem (tag: string) (attrib: "(string \<times> string) list") (children: "Elem list")

text \<open>
  The exceptions the parser can raise. From \<open>ET.parse\<close>: \<open>ET.ParseError\<close> on a file that
  is not well-formed XML, \<open>LookupError\<close> on a declared encoding that Python does not
  know, \<open>ValueError\<close> on a multi-byte encoding or on a path with a null byte, \<open>OSError\<close>
  on a file that cannot be opened or read. From the walk over the document:
  \<open>ValueError\<close> from \<open>int(...)\<close> on a text that is not an integer literal, \<open>IndexError\<close>
  from \<open>parts[-1]\<close> on an empty list.
\<close>

datatype error =
  ParseError string | ValueError string | IndexError | LookupError string | OSError string

text \<open>\<open>elem.get(key)\<close> and \<open>elem.get(key, default)\<close>.\<close>

definition get :: "Elem \<Rightarrow> string \<Rightarrow> string option" where
  "get elem key = map_of (attrib elem) key"

definition get_or :: "Elem \<Rightarrow> string \<Rightarrow> string \<Rightarrow> string" where
  "get_or elem key d = (case get elem key of None \<Rightarrow> d | Some v \<Rightarrow> v)"

text \<open>\<open>a or b\<close> on two optional strings.\<close>

definition py_or :: "string option \<Rightarrow> string option \<Rightarrow> string option" where
  "py_or a b = (if truthy a then a else b)"

definition XSI_NS :: string where
  "XSI_NS = ''http://www.w3.org/2001/XMLSchema-instance''"

definition xsi_type_key :: string where
  "xsi_type_key = ''{'' @ XSI_NS @ ''}type''"

text \<open>
  \<open>int(s)\<close> in base ten: surrounding whitespace (for \<open>int\<close> of an ASCII string that
  is the space and the control characters 9-13 only), an optional sign, then decimal
  digits with single underscores allowed between digits. Anything else raises
  \<open>ValueError\<close>.
\<close>

definition is_c_space :: "char \<Rightarrow> bool" where
  "is_c_space c = (c \<in> set [CHR '' '', CHR 0x09, CHR 0x0A, CHR 0x0B, CHR 0x0C, CHR 0x0D])"

definition digit_value :: "char \<Rightarrow> int" where
  "digit_value c = (case map_of (zip digit_chars [0, 1, 2, 3, 4, 5, 6, 7, 8, 9]) c of
                      Some d \<Rightarrow> d | None \<Rightarrow> 0)"

definition digits_value :: "string \<Rightarrow> int" where
  "digits_value ds = fold (\<lambda>c n. 10 * n + digit_value c) ds 0"

definition int_body_ok :: "string \<Rightarrow> bool" where
  "int_body_ok b =
     (b \<noteq> [] \<and> is_digit (hd b) \<and> is_digit (last b)
      \<and> list_all (\<lambda>c. is_digit c \<or> c = CHR ''_'') b
      \<and> \<not> contains ''__'' b)"

definition py_int :: "string \<Rightarrow> error + int" where
  "py_int s =
     (let t = strip_chars is_c_space s;
          neg = (t \<noteq> [] \<and> hd t = CHR ''-'');
          body = (if t \<noteq> [] \<and> (hd t = CHR ''-'' \<or> hd t = CHR ''+'') then tl t else t)
      in if int_body_ok body
         then Inr ((if neg then - 1 else 1) * digits_value (filter is_digit body))
         else Inl (ValueError s))"

definition strip_ns :: "string \<Rightarrow> string" where
  "strip_ns t = (case split1 ''}'' t of Some (l, r) \<Rightarrow> r | None \<Rightarrow> t)"

definition has_literals :: "Elem \<Rightarrow> bool" where
  "has_literals elem =
     list_ex (\<lambda>child. contains ''literal'' (lower (strip_ns (tag child)))
                       \<or> ''eLiterals'' = strip_ns (tag child))
       (children elem)"

definition has_structural_features :: "Elem \<Rightarrow> bool" where
  "has_structural_features elem =
     list_ex (\<lambda>child. ''eStructuralFeatures'' = strip_ns (tag child)
                       \<or> contains ''feature'' (lower (strip_ns (tag child))))
       (children elem)"

definition looks_like_class :: "Elem \<Rightarrow> bool" where
  "looks_like_class elem =
     (has_structural_features elem \<or> get elem ''eSuperTypes'' \<noteq> None
      \<or> get elem ''abstract'' \<noteq> None)"

definition looks_like_enum :: "Elem \<Rightarrow> bool" where
  "looks_like_enum elem = has_literals elem"

definition looks_like_datatype :: "Elem \<Rightarrow> bool" where
  "looks_like_datatype elem =
     (get elem ''instanceClassName'' \<noteq> None \<or> get elem ''instanceTypeName'' \<noteq> None)"

text \<open>
  The branch that \<open>_parse_package\<close> takes for an \<open>eClassifiers\<close> child: the
  \<open>if\<close>/\<open>elif\<close> chain of the source, with its final content-based guess.
\<close>

datatype classifier_kind = IsClass | IsEnum | IsDataType

definition classify :: "Elem \<Rightarrow> classifier_kind" where
  "classify child =
     (let xsi_type = get_or child xsi_type_key [] in
      if contains ''EClass'' xsi_type \<or> (xsi_type = [] \<and> looks_like_class child) then IsClass
      else if contains ''EEnum'' xsi_type \<or> looks_like_enum child then IsEnum
      else if contains ''EDataType'' xsi_type \<or> looks_like_datatype child then IsDataType
      else if has_literals child then IsEnum
      else if has_structural_features child then IsClass
      else if truthy (py_or (get child ''instanceClassName'') (get child ''instanceTypeName''))
           then IsDataType
      else IsClass)"

text \<open>\<open>d[key] = value\<close> on a dictionary kept in insertion order.\<close>

fun dict_set :: "string \<Rightarrow> string \<Rightarrow> (string \<times> string) list \<Rightarrow> (string \<times> string) list" where
  "dict_set k v [] = [(k, v)]"
| "dict_set k v ((k', v') # kvs) =
     (if k' = k then (k, v) # kvs else (k', v') # dict_set k v kvs)"

definition parse_details :: "Elem list \<Rightarrow> (string \<times> string) list" where
  "parse_details ds =
     fold (\<lambda>detail d.
             if strip_ns (tag detail) = ''details''
             then (let key = get_or detail ''key'' []; val = get_or detail ''value'' []
                   in if key \<noteq> [] then dict_set key val d else d)
             else d)
       ds []"

definition parse_annotations :: "Elem \<Rightarrow> EAnnotation list" where
  "parse_annotations elem =
     concat (map (\<lambda>child.
                    if strip_ns (tag child) = ''eAnnotations''
                    then (let ds = parse_details (children child)
                          in if ds \<noteq> []
                             then [\<lparr>source = get_or child ''source'' [], details = ds\<rparr>]
                             else [])
                    else [])
               (children elem))"

definition extract_type_info :: "string \<Rightarrow> error + (string \<times> string option)" where
  "extract_type_info etype_raw =
     (if etype_raw = [] then Inr (''EString'', None)
      else
        (case rsplit1 ''#//'' etype_raw of
           Some (left0, right) \<Rightarrow>
             (let type_name = strip (last (split_on CHR ''/'' right));
                  left = strip left0
              in if left \<noteq> [] \<and> \<not> contains ''eclipse.org/emf'' left
                      \<and> \<not> contains ''www.w3.org'' left
                 then
                   (case (if contains '' '' left then split_ws left else [left]) of
                      [] \<Rightarrow> Inl IndexError
                    | w # ws \<Rightarrow>
                        (let basename = last (split_on CHR ''/'' (last (w # ws)));
                             hint = (case rsplit1 ''.'' basename of
                                       Some (stem, ext) \<Rightarrow> stem
                                     | None \<Rightarrow> basename)
                         in Inr (type_name, Some (if hint \<noteq> [] then strip hint else hint))))
                 else Inr (type_name, None))
         | None \<Rightarrow>
             (case split_ws etype_raw of
                [] \<Rightarrow> Inl IndexError
              | w # ws \<Rightarrow> Inr (strip (last (w # ws)), None))))"

definition extract_type_name :: "string \<Rightarrow> error + string" where
  "extract_type_name etype_raw =
     (case extract_type_info etype_raw of Inl e \<Rightarrow> Inl e | Inr (type_name, hint) \<Rightarrow> Inr type_name)"

definition is_likely_reference :: "string \<Rightarrow> error + bool" where
  "is_likely_reference etype =
     (case extract_type_name etype of
        Inl e \<Rightarrow> Inl e
      | Inr type_name \<Rightarrow> Inr (proto_type_of type_name = None))"

definition parse_attribute :: "Elem \<Rightarrow> error + EAttribute" where
  "parse_attribute elem =
     (case extract_type_info (get_or elem ''eType'' []) of
        Inl e \<Rightarrow> Inl e
      | Inr (type_name, hint) \<Rightarrow>
          (case py_int (get_or elem ''lowerBound'' ''0'') of
             Inl e \<Rightarrow> Inl e
           | Inr lo \<Rightarrow>
               (case py_int (get_or elem ''upperBound'' ''1'') of
                  Inl e \<Rightarrow> Inl e
                | Inr hi \<Rightarrow>
                    Inr \<lparr>attr_name = get_or elem ''name'' ''unknown'',
                         attr_e_type = type_name,
                         attr_lower_bound = lo,
                         attr_upper_bound = hi,
                         default_value = get elem ''defaultValueLiteral'',
                         attr_source_hint = hint,
                         attr_annotations = parse_annotations elem\<rparr>)))"

definition parse_reference :: "Elem \<Rightarrow> error + EReference" where
  "parse_reference elem =
     (case extract_type_info (get_or elem ''eType'' []) of
        Inl e \<Rightarrow> Inl e
      | Inr (type_name, hint) \<Rightarrow>
          (case py_int (get_or elem ''lowerBound'' ''0'') of
             Inl e \<Rightarrow> Inl e
           | Inr lo \<Rightarrow>
               (case py_int (get_or elem ''upperBound'' ''1'') of
                  Inl e \<Rightarrow> Inl e
                | Inr hi \<Rightarrow>
                    Inr \<lparr>ref_name = get_or elem ''name'' ''unknown'',
                         ref_e_type = type_name,
                         containment = (lower (get_or elem ''containment'' ''false'') = ''true''),
                         ref_lower_bound = lo,
                         ref_upper_bound = hi,
                         opposite = get elem ''eOpposite'',
                         resolved_package = None,
                         ref_source_hint = hint,
                         ref_annotations = parse_annotations elem\<rparr>)))"

text \<open>
  The branch that \<open>_parse_class\<close> takes for an \<open>eStructuralFeatures\<close> child.
\<close>

datatype feature_kind = IsReference | IsAttribute

definition classify_feature :: "Elem \<Rightarrow> error + feature_kind" where
  "classify_feature child =
     (let xsi_type = get_or child xsi_type_key [] in
      if contains ''EReference'' xsi_type then Inr IsReference
      else if contains ''EAttribute'' xsi_type then Inr IsAttribute
      else
        (let etype = get_or child ''eType'' [] in
         if etype \<noteq> [] \<and> (contains ''#//'' etype \<or> contains ''ecore:'' (lower etype))
         then (case is_likely_reference etype of
                 Inl e \<Rightarrow> Inl e
               | Inr b \<Rightarrow> Inr (if b then IsReference else IsAttribute))
         else Inr IsAttribute))"

fun parse_features :: "Elem list \<Rightarrow> EClass \<Rightarrow> error + EClass" where
  "parse_features [] cls = Inr cls"
| "parse_features (child # rest) cls =
     (if strip_ns (tag child) = ''eStructuralFeatures''
      then
        (case classify_feature child of
           Inl e \<Rightarrow> Inl e
         | Inr IsReference \<Rightarrow>
             (case parse_reference child of
                Inl e \<Rightarrow> Inl e
              | Inr r \<Rightarrow> parse_features rest (cls\<lparr>references := references cls @ [r]\<rparr>))
         | Inr IsAttribute \<Rightarrow>
             (case parse_attribute child of
                Inl e \<Rightarrow> Inl e
              | Inr a \<Rightarrow> parse_features rest (cls\<lparr>attributes := attributes cls @ [a]\<rparr>)))
      else parse_features rest cls)"

definition parse_class :: "Elem \<Rightarrow> string \<Rightarrow> error + EClass" where
  "parse_class elem package_name =
     parse_features (children elem)
       \<lparr>cls_name = get_or elem ''name'' ''UnknownClass'',
        abstract = (lower (get_or elem ''abstract'' ''false'') = ''true''),
        interface = (lower (get_or elem ''interface'' ''false'') = ''true''),
        super_types = map strip (split_ws (get_or elem ''eSuperTypes'' [])),
        attributes = [],
        references = [],
        cls_package_name = package_name,
        resolved_supers = [],
        cls_annotations = parse_annotations elem\<rparr>"

fun parse_literals :: "Elem list \<Rightarrow> EEnum \<Rightarrow> error + EEnum" where
  "parse_literals [] enum = Inr enum"
| "parse_literals (child # rest) enum =
     (if strip_ns (tag child) = ''eLiterals''
      then
        (case py_int (get_or child ''value'' ''0'') of
           Inl e \<Rightarrow> Inl e
         | Inr v \<Rightarrow>
             parse_literals rest
               (enum\<lparr>literals := literals enum
                        @ [\<lparr>lit_name = get_or child ''name'' ''UNKNOWN'', lit_value = v\<rparr>]\<rparr>))
      else parse_literals rest enum)"

definition parse_enum :: "Elem \<Rightarrow> string \<Rightarrow> error + EEnum" where
  "parse_enum elem package_name =
     parse_literals (children elem)
       \<lparr>enum_name = get_or elem ''name'' ''UnknownEnum'',
        literals = [],
        enum_package_name = package_name,
        enum_annotations = parse_annotations elem\<rparr>"

definition parse_datatype :: "Elem \<Rightarrow> EDataType" where
  "parse_datatype elem =
     \<lparr>dt_name = get_or elem ''name'' [],
      instance_class_name = py_or (get elem ''instanceClassName'') (get elem ''instanceTypeName'')\<rparr>"

text \<open>
  Creating an \<open>EClass\<close> object: the parser state is the store of class objects and the
  next free address. \<open>pkg.classes.append(cls)\<close> puts the address of the new object
  into the package.
\<close>

type_synonym pstate = "class_store \<times> addr"

definition alloc :: "EClass \<Rightarrow> pstate \<Rightarrow> addr \<times> pstate" where
  "alloc cls st = (snd st, ((fst st)(snd st := cls), Suc (snd st)))"

fun add_class :: "addr \<Rightarrow> EPackage \<Rightarrow> EPackage" where
  "add_class a (EPackage n u p cs es ds subs f an) = EPackage n u p (cs @ [a]) es ds subs f an"

fun add_enum :: "EEnum \<Rightarrow> EPackage \<Rightarrow> EPackage" where
  "add_enum e (EPackage n u p cs es ds subs f an) = EPackage n u p cs (es @ [e]) ds subs f an"

fun add_data_type :: "EDataType \<Rightarrow> EPackage \<Rightarrow> EPackage" where
  "add_data_type d (EPackage n u p cs es ds subs f an) = EPackage n u p cs es (ds @ [d]) subs f an"

fun add_sub_package :: "EPackage \<Rightarrow> EPackage \<Rightarrow> EPackage" where
  "add_sub_package s (EPackage n u p cs es ds subs f an) = EPackage n u p cs es ds (subs @ [s]) f an"

fun parse_package :: "Elem \<Rightarrow> string \<Rightarrow> pstate \<Rightarrow> error + (EPackage \<times> pstate)"
  and parse_package_children ::
    "Elem list \<Rightarrow> string \<Rightarrow> EPackage \<Rightarrow> pstate \<Rightarrow> error + (EPackage \<times> pstate)" where
  "parse_package (Elem t attrs cs) filepath st =
     parse_package_children cs filepath
       (EPackage (get_or (Elem t attrs cs) ''name'' [])
          (get_or (Elem t attrs cs) ''nsURI'' [])
          (get_or (Elem t attrs cs) ''nsPrefix'' [])
          [] [] [] [] filepath (parse_annotations (Elem t attrs cs)))
       st"
| "parse_package_children [] filepath pkg st = Inr (pkg, st)"
| "parse_package_children (child # rest) filepath pkg st =
     (if strip_ns (tag child) = ''eClassifiers'' \<or> strip_ns (tag child) = ''EClassifiers''
      then
        (case classify child of
           IsClass \<Rightarrow>
             (case parse_class child (pkg_name pkg) of
                Inl e \<Rightarrow> Inl e
              | Inr cls \<Rightarrow>
                  parse_package_children rest filepath
                    (add_class (fst (alloc cls st)) pkg) (snd (alloc cls st)))
         | IsEnum \<Rightarrow>
             (case parse_enum child (pkg_name pkg) of
                Inl e \<Rightarrow> Inl e
              | Inr enum \<Rightarrow> parse_package_children rest filepath (add_enum enum pkg) st)
         | IsDataType \<Rightarrow>
             parse_package_children rest filepath (add_data_type (parse_datatype child) pkg) st)
      else if strip_ns (tag child) = ''eSubpackages'' \<or> strip_ns (tag child) = ''ESubpackages''
      then
        (case parse_package child filepath st of
           Inl e \<Rightarrow> Inl e
         | Inr (sub, st') \<Rightarrow> parse_package_children rest filepath (add_sub_package sub pkg) st')
      else parse_package_children rest filepath pkg st)"

text \<open>
  The packages of the \<open>EPackage\<close> children of a wrapper root (\<open>XMI\<close> or \<open>Resource\<close>).
\<close>

fun parse_root_children ::
  "Elem list \<Rightarrow> string \<Rightarrow> EPackage list \<Rightarrow> pstate \<Rightarrow> error + (EPackage list \<times> pstate)" where
  "parse_root_children [] filepath packages st = Inr (packages, st)"
| "parse_root_children (child # rest) filepath packages st =
     (if strip_ns (tag child) = ''EPackage''
      then
        (case parse_package child filepath st of
           Inl e \<Rightarrow> Inl e
         | Inr (pkg, st') \<Rightarrow> parse_root_children rest filepath (packages @ [pkg]) st')
      else parse_root_children rest filepath packages st)"

text \<open>
  What \<open>ET.parse(filepath)\<close> finds at a path, with the exception it raises there: text
  that is not well-formed XML (\<open>ParseError\<close>), a declared encoding unknown to Python
  (\<open>LookupError\<close>), a multi-byte encoding or a path with a null byte (\<open>ValueError\<close>), a
  file that is missing, is a directory or cannot be read (\<open>OSError\<close>), or a document
  with its root element. Each exception carries its message.
\<close>

datatype xml_source =
  Malformed string | UnknownEncoding string | Unsupported string | Unreadable string
  | Document Elem

definition et_parse :: "xml_source \<Rightarrow> error + Elem" where
  "et_parse src =
     (case src of
        Malformed msg \<Rightarrow> Inl (ParseError msg)
      | UnknownEncoding msg \<Rightarrow> Inl (LookupError msg)
      | Unsupported msg \<Rightarrow> Inl (ValueError msg)
      | Unreadable msg \<Rightarrow> Inl (OSError msg)
      | Document root \<Rightarrow> Inr root)"

definition parse_file :: "string \<Rightarrow> xml_source \<Rightarrow> pstate \<Rightarrow> error + (EPackage list \<times> pstate)" where
  "parse_file filepath src st =
     (case et_parse src of
        Inl e \<Rightarrow> Inl e
      | Inr root \<Rightarrow>
          (if strip_ns (tag root) = ''EPackage''
           then (case parse_package root filepath st of
                   Inl e \<Rightarrow> Inl e
                 | Inr (pkg, st') \<Rightarrow> Inr ([pkg], st'))
           else if strip_ns (tag root) = ''XMI'' \<or> strip_ns (tag root) = ''Resource''
           then parse_root_children (children root) filepath [] st
           else (case parse_package root filepath st of
                   Inl e \<Rightarrow> Inl e
                 | Inr (pkg, st') \<Rightarrow> Inr (if pkg_name pkg \<noteq> [] then [pkg] else [], st'))))"

text \<open>
  The parsing loop of \<open>convert\<close> over the input units (file path and content). The
  lines printed to \<open>stderr\<close> are collected; they stay printed when an exception that
  the loop does not catch ends the run.
\<close>

fun parse_units ::
  "bool \<Rightarrow> (string \<times> xml_source) list \<Rightarrow> string list \<Rightarrow> EPackage list \<Rightarrow> pstate
     \<Rightarrow> string list \<times> (error + (EPackage list \<times> pstate))" where
  "parse_units verbose [] log all_packages st = (log, Inr (all_packages, st))"
| "parse_units verbose ((filepath, src) # rest) log all_packages st =
     (let log1 = (if verbose then log @ [''Parsing: '' @ filepath] else log) in
      case parse_file filepath src st of
        Inr (packages, st') \<Rightarrow> parse_units verbose rest log1 (all_packages @ packages) st'
      | Inl (ParseError msg) \<Rightarrow>
          parse_units verbose rest
            (log1 @ [''Error parsing '' @ filepath @ '': '' @ msg]) all_packages st
      | Inl e \<Rightarrow> (log1, Inl e))"

section \<open>Flattening sub-packages\<close>

fun flatten_packages :: "EPackage list \<Rightarrow> EPackage list" where
  "flatten_packages [] = []"
| "flatten_packages (EPackage n u p cs es ds subs f an # pkgs) =
     EPackage n u p cs es ds subs f an
       # (if subs \<noteq> [] then flatten_packages subs else [])
       @ flatten_packages pkgs"

section \<open>Cross-reference resolver\<close>

text \<open>
  \<open>Path(p).stem\<close> of the standard library, for POSIX paths: the last path component
  (empty and \<open>.\<close> components dropped) without its last suffix; a leading dot or a
  trailing dot does not start a suffix.
\<close>

definition path_name :: "string \<Rightarrow> string" where
  "path_name p =
     (case filter (\<lambda>c. c \<noteq> [] \<and> c \<noteq> ''.'') (split_on CHR ''/'' p) of
        [] \<Rightarrow> []
      | c # cs \<Rightarrow> last (c # cs))"

definition path_stem :: "string \<Rightarrow> string" where
  "path_stem p =
     (let name = path_name p in
      case rsplit1 ''.'' name of
        None \<Rightarrow> name
      | Some (l, r) \<Rightarrow> if l \<noteq> [] \<and> r \<noteq> [] then l else name)"

record resolver =
  class_index :: "string \<rightharpoonup> string list"
  enum_index :: "string \<rightharpoonup> string list"
  datatype_index :: "string \<rightharpoonup> string"
  file_stem_to_package :: "string \<rightharpoonup> string"

definition empty_resolver :: resolver where
  "empty_resolver =
     \<lparr>class_index = Map.empty, enum_index = Map.empty,
      datatype_index = Map.empty, file_stem_to_package = Map.empty\<rparr>"

text \<open>\<open>index.setdefault(name, [])\<close> followed by the guarded \<open>append\<close>.\<close>

definition index_add :: "(string \<rightharpoonup> string list) \<Rightarrow> string \<Rightarrow> string \<Rightarrow> (string \<rightharpoonup> string list)" where
  "index_add idx key pkg =
     (let cur = (case idx key of None \<Rightarrow> [] | Some l \<Rightarrow> l)
      in idx(key \<mapsto> (if pkg \<in> set cur then cur else cur @ [pkg])))"

definition index_datatype :: "EDataType \<Rightarrow> resolver \<Rightarrow> resolver" where
  "index_datatype dt R =
     (case instance_class_name dt of
        None \<Rightarrow> R
      | Some icn \<Rightarrow>
          if icn = [] then R
          else R\<lparr>datatype_index := (datatype_index R)(dt_name dt \<mapsto> icn)\<rparr>)"

fun index_package :: "class_store \<Rightarrow> EPackage \<Rightarrow> resolver \<Rightarrow> resolver" where
  "index_package h (EPackage n u p cs es ds subs f an) R =
     (let R1 = (if f \<noteq> [] then R\<lparr>file_stem_to_package := (file_stem_to_package R)(path_stem f \<mapsto> n)\<rparr>
                else R);
          R2 = R1\<lparr>file_stem_to_package := (file_stem_to_package R1)(n \<mapsto> n)\<rparr>;
          R3 = fold (\<lambda>a R. R\<lparr>class_index := index_add (class_index R) (cls_name (h a)) n\<rparr>) cs R2;
          R4 = fold (\<lambda>e R. R\<lparr>enum_index := index_add (enum_index R) (enum_name e) n\<rparr>) es R3;
          R5 = fold index_datatype ds R4
      in fold (index_package h) subs R5)"

definition build_indices :: "class_store \<Rightarrow> EPackage list \<Rightarrow> resolver" where
  "build_indices h pkgs = fold (index_package h) pkgs empty_resolver"

definition resolve_type ::
  "resolver \<Rightarrow> string \<Rightarrow> string option \<Rightarrow> string \<Rightarrow> (string \<rightharpoonup> string list) \<Rightarrow> string option" where
  "resolve_type R type_name source_hint current_pkg_name index =
     (let candidates = (case index type_name of None \<Rightarrow> [] | Some c \<Rightarrow> c) in
      if candidates = [] then None
      else if length candidates = 1 then Some (hd candidates)
      else
        (let by_hint =
           (case source_hint of
              None \<Rightarrow> None
            | Some hint \<Rightarrow>
                if hint = [] then None
                else
                  (let hinted_pkg = file_stem_to_package R hint in
                   if truthy hinted_pkg \<and> or_else hinted_pkg [] \<in> set candidates
                   then hinted_pkg
                   else if hint \<in> set candidates then Some hint
                   else None))
         in case by_hint of
              Some p \<Rightarrow> Some p
            | None \<Rightarrow>
                if current_pkg_name \<in> set candidates then Some current_pkg_name
                else Some (hd candidates)))"

definition extract_type_info_from_uri :: "string \<Rightarrow> string \<times> string option" where
  "extract_type_info_from_uri uri =
     (case rsplit1 ''#//'' uri of
        Some (left0, right) \<Rightarrow>
          (let type_name = strip (last (split_on CHR ''/'' right));
               left = strip left0
           in if left \<noteq> [] then
                (let basename = last (split_on CHR ''/'' left) in
                 case rsplit1 ''.'' basename of
                   Some (stem, ext) \<Rightarrow> (type_name, Some stem)
                 | None \<Rightarrow> (type_name, Some basename))
              else (type_name, None))
      | None \<Rightarrow> (last (split_on CHR ''/'' uri), None))"

definition resolve_super :: "resolver \<Rightarrow> string \<Rightarrow> string \<Rightarrow> string \<times> string" where
  "resolve_super R current st =
     (let (type_name, source_hint) = extract_type_info_from_uri st;
          target_pkg = resolve_type R type_name source_hint current (class_index R)
      in (or_else target_pkg current, type_name))"

definition resolve_reference :: "resolver \<Rightarrow> string \<Rightarrow> EReference \<Rightarrow> EReference" where
  "resolve_reference R current ref =
     (let resolved = resolve_type R (ref_e_type ref) (ref_source_hint ref) current (class_index R)
      in if truthy resolved then ref\<lparr>resolved_package := resolved\<rparr>
         else
           (let resolved2 = resolve_type R (ref_e_type ref) (ref_source_hint ref) current (enum_index R)
            in ref\<lparr>resolved_package := Some (or_else resolved2 current)\<rparr>))"

text \<open>
  One visit of a class by \<open>_resolve_package\<close>: a pair is appended to
  \<open>resolved_supers\<close> for each raw super-type token, and each reference gets its
  \<open>resolved_package\<close> assigned.
\<close>

definition resolve_class :: "resolver \<Rightarrow> string \<Rightarrow> EClass \<Rightarrow> EClass" where
  "resolve_class R current cls =
     cls\<lparr>resolved_supers := resolved_supers cls @ map (resolve_super R current) (super_types cls),
         references := map (resolve_reference R current) (references cls)\<rparr>"

definition visit_class :: "resolver \<Rightarrow> string \<Rightarrow> addr \<Rightarrow> class_store \<Rightarrow> class_store" where
  "visit_class R current a h = h(a := resolve_class R current (h a))"

fun resolve_package :: "resolver \<Rightarrow> EPackage \<Rightarrow> class_store \<Rightarrow> class_store" where
  "resolve_package R (EPackage n u p cs es ds subs f an) h =
     fold (resolve_package R) subs (fold (visit_class R n) cs h)"

definition resolve :: "resolver \<Rightarrow> EPackage list \<Rightarrow> class_store \<Rightarrow> class_store" where
  "resolve R pkgs h = fold (resolve_package R) pkgs h"


section \<open>Naming helpers\<close>

text \<open>
  The regular-expression substitutions of the converter, each as a function on the
  characters. The character classes of the source are ASCII ranges.

  \<open>re.sub(r'([a-z0-9])([A-Z])', r'\1_\2', s)\<close>: an underscore goes between a
  lower-case letter or digit and an upper-case letter that follows it.
\<close>

fun sub_lower_upper :: "string \<Rightarrow> string" where
  "sub_lower_upper (a # b # r) =
     (if (is_lower a \<or> is_digit a) \<and> is_upper b then a # CHR ''_'' # b # sub_lower_upper r
      else a # sub_lower_upper (b # r))"
| "sub_lower_upper s = s"

text \<open>
  \<open>re.sub(r'([A-Z]+)([A-Z][a-z])', r'\1_\2', s)\<close>: a run of upper-case letters that a
  lower-case letter follows is split before its last letter. The greedy group can end
  only one letter before the end of the run, so the underscore goes exactly between
  two upper-case letters of which the second is followed by a lower-case letter, and
  the scan goes on behind that lower-case letter.
\<close>

fun sub_upper_run :: "string \<Rightarrow> string" where
  "sub_upper_run (a # b # c # r) =
     (if is_upper a \<and> is_upper b \<and> is_lower c then a # CHR ''_'' # b # c # sub_upper_run r
      else a # sub_upper_run (b # c # r))"
| "sub_upper_run s = s"

text \<open>\<open>re.sub(r'_+', '_', s)\<close>.\<close>

fun collapse_underscores :: "string \<Rightarrow> string" where
  "collapse_underscores (a # b # r) =
     (if a = CHR ''_'' \<and> b = CHR ''_'' then collapse_underscores (b # r)
      else a # collapse_underscores (b # r))"
| "collapse_underscores s = s"

text \<open>\<open>re.sub(r'[^...]', '_', s)\<close> for a class of characters that are kept.\<close>

definition replace_others :: "(char \<Rightarrow> bool) \<Rightarrow> string \<Rightarrow> string" where
  "replace_others keep s = map (\<lambda>c. if keep c then c else CHR ''_'') s"

definition strip_underscores :: "string \<Rightarrow> string" where
  "strip_underscores s = strip_chars (\<lambda>c. c = CHR ''_'') s"

text \<open>\<open>str(n)\<close> for an integer.\<close>

fun show_nat :: "nat \<Rightarrow> string" where
  "show_nat n = (if n < 10 then [digit_chars ! n] else show_nat (n div 10) @ [digit_chars ! (n mod 10)])"

definition show_int :: "int \<Rightarrow> string" where
  "show_int i = (if i < 0 then CHR ''-'' # show_nat (nat (- i)) else show_nat (nat i))"

section \<open>Annotation collector\<close>

definition EXTENSION_FIELD_START :: int where
  "EXTENSION_FIELD_START = 50000"

definition match_int :: "string \<Rightarrow> bool" where
  "match_int v =
     (let b = (if v \<noteq> [] \<and> hd v = CHR ''-'' then tl v else v)
      in b \<noteq> [] \<and> list_all is_digit b)"

definition match_float :: "string \<Rightarrow> bool" where
  "match_float v =
     (let b = (if v \<noteq> [] \<and> hd v = CHR ''-'' then tl v else v);
          r = dropWhile is_digit b;
          r' = (if r \<noteq> [] \<and> hd r = CHR ''.'' then tl r else r)
      in takeWhile is_digit b \<noteq> [] \<and> list_all is_digit r')"

text \<open>The observed values of one option are a set; it is kept as a list without repetitions.\<close>

definition infer_proto_type :: "string list \<Rightarrow> string" where
  "infer_proto_type vals =
     (if vals = [] then ''string''
      else if list_all (\<lambda>v. lower v = ''true'' \<or> lower v = ''false'') vals then ''bool''
      else if list_all match_int vals then ''int32''
      else if list_all match_float vals then ''double''
      else ''string'')"

definition shorten_source :: "string \<Rightarrow> string" where
  "shorten_source src =
     (if src = [] then ''unknown''
      else
        (let cleaned = rstrip_char CHR ''/'' src;
             last1 = (if contains ''/'' cleaned then last (split_on CHR ''/'' cleaned) else cleaned);
             last2 = lower (replace_others (\<lambda>c. is_lower c \<or> is_upper c \<or> is_digit c \<or> c = CHR ''_'') last1);
             last3 = strip_underscores (collapse_underscores last2)
         in if last3 = [] then ''unknown'' else last3))"

record AnnotationOptionDef =
  key :: string
  field_name :: string
  proto_type :: string
  field_number :: int
  source_short :: string
  source_full :: string

text \<open>
  The collector: \<open>options\<close> is the ordered dictionary from \<open>(source_short, key)\<close> to
  the option, in registration order; \<open>value_samples\<close> gives the observed values of a
  registered pair (the source creates its entry together with the option, so the
  lookup of a registered pair cannot fail).
\<close>

record AnnotationCollector =
  options :: "((string \<times> string) \<times> AnnotationOptionDef) list"
  value_samples :: "(string \<times> string) \<Rightarrow> string list"
  next_field_number :: int

definition new_collector :: AnnotationCollector where
  "new_collector =
     \<lparr>options = [], value_samples = (\<lambda>_. []), next_field_number = EXTENSION_FIELD_START\<rparr>"

definition register_detail ::
  "string \<Rightarrow> string \<Rightarrow> string \<times> string \<Rightarrow> AnnotationCollector \<Rightarrow> AnnotationCollector" where
  "register_detail short full kv c =
     (let lookup = (short, fst kv);
          c1 = (if map_of (options c) lookup = None
                then c\<lparr>options := options c
                         @ [(lookup,
                             \<lparr>key = fst kv, field_name = [], proto_type = ''string'',
                              field_number = next_field_number c,
                              source_short = short, source_full = full\<rparr>)],
                       value_samples := (value_samples c)(lookup := []),
                       next_field_number := next_field_number c + 1\<rparr>
                else c)
      in c1\<lparr>value_samples :=
               (value_samples c1)(lookup := List.insert (snd kv) (value_samples c1 lookup))\<rparr>)"

definition register_annotation :: "EAnnotation \<Rightarrow> AnnotationCollector \<Rightarrow> AnnotationCollector" where
  "register_annotation ann c =
     fold (register_detail (shorten_source (source ann)) (source ann)) (details ann) c"

definition scan_class :: "class_store \<Rightarrow> addr \<Rightarrow> AnnotationCollector \<Rightarrow> AnnotationCollector" where
  "scan_class h a c =
     fold (\<lambda>r. fold register_annotation (ref_annotations r)) (references (h a))
       (fold (\<lambda>at. fold register_annotation (attr_annotations at)) (attributes (h a))
          (fold register_annotation (cls_annotations (h a)) c))"

fun scan_package :: "class_store \<Rightarrow> EPackage \<Rightarrow> AnnotationCollector \<Rightarrow> AnnotationCollector" where
  "scan_package h (EPackage n u p cs es ds subs f an) c =
     fold (scan_package h) subs
       (fold (\<lambda>e. fold register_annotation (enum_annotations e)) es
          (fold (scan_class h) cs
             (fold register_annotation an c)))"

definition to_option_field_name :: "string \<Rightarrow> string \<Rightarrow> string" where
  "to_option_field_name short k =
     (let raw = (if short \<noteq> [] then short @ ''_'' @ k else k);
          s1 = sub_upper_run (sub_lower_upper raw);
          s2 = replace_others (\<lambda>c. is_lower c \<or> is_digit c \<or> c = CHR ''_'') (lower s1)
      in strip_underscores (collapse_underscores s2))"

text \<open>\<open>key_to_sources[key]\<close>: the distinct shortened sources under which a key is registered.\<close>

definition key_to_sources :: "((string \<times> string) \<times> AnnotationOptionDef) list \<Rightarrow> string \<Rightarrow> string list" where
  "key_to_sources opts k = remdups (map fst (filter (\<lambda>lookup. snd lookup = k) (map fst opts)))"

definition finalize :: "AnnotationCollector \<Rightarrow> AnnotationCollector" where
  "finalize c =
     c\<lparr>options :=
         map (\<lambda>(lookup, opt).
                (lookup,
                 opt\<lparr>proto_type := infer_proto_type (value_samples c lookup),
                     field_name :=
                       to_option_field_name
                         (if 1 < length (key_to_sources (options c) (snd lookup))
                          then fst lookup else [])
                         (snd lookup)\<rparr>))
           (options c)\<rparr>"

definition scan :: "class_store \<Rightarrow> EPackage list \<Rightarrow> AnnotationCollector \<Rightarrow> AnnotationCollector" where
  "scan h pkgs c = fold (scan_package h) pkgs c"

definition scan_packages :: "class_store \<Rightarrow> EPackage list \<Rightarrow> AnnotationCollector \<Rightarrow> AnnotationCollector" where
  "scan_packages h pkgs c = finalize (scan h pkgs c)"

section \<open>Proto generator\<close>

record ProtoGenerator =
  gen_resolver :: resolver
  options_package :: string
  java_package_prefix :: string
  go_package_prefix :: string
  proto_package_prefix :: string

definition replace_char :: "char \<Rightarrow> char \<Rightarrow> string \<Rightarrow> string" where
  "replace_char a b s = map (\<lambda>c. if c = a then b else c) s"

definition to_proto_package :: "ProtoGenerator \<Rightarrow> string \<Rightarrow> string" where
  "to_proto_package G n =
     (let pkg = replace_char CHR ''.'' CHR ''_'' (replace_char CHR ''-'' CHR ''_'' (lower n))
      in if proto_package_prefix G \<noteq> [] then proto_package_prefix G @ ''.'' @ pkg else pkg)"

definition to_proto_name :: "string \<Rightarrow> string" where
  "to_proto_name n = (case n of [] \<Rightarrow> ''Unknown'' | c # cs \<Rightarrow> upper_char c # cs)"

definition camel_to_upper_snake :: "string \<Rightarrow> string" where
  "camel_to_upper_snake n =
     (if n = upper n
      then strip_underscores (replace_others (\<lambda>c. is_upper c \<or> is_digit c \<or> c = CHR ''_'') n)
      else
        strip_underscores
          (upper (replace_others (\<lambda>c. is_upper c \<or> is_lower c \<or> is_digit c \<or> c = CHR ''_'')
                    (sub_upper_run (sub_lower_upper n)))))"

definition to_enum_value_name :: "string \<Rightarrow> string \<Rightarrow> string" where
  "to_enum_value_name enum_n literal_n =
     (let pre = camel_to_upper_snake enum_n; val = camel_to_upper_snake literal_n
      in if prefix pre val then val else pre @ ''_'' @ val)"

text \<open>
  The value lines of a rendered enum, in the order \<open>_generate_enum\<close> emits them, each
  as the literal name and the number that the line holds; \<open>generate_enum\<close> formats
  them between the opening and the closing line.
\<close>

definition enum_entries :: "EEnum \<Rightarrow> (string \<times> int) list" where
  "enum_entries enum =
     (let has_zero = list_ex (\<lambda>lit. lit_value lit = 0) (literals enum)
      in (if \<not> has_zero then [(to_enum_value_name (enum_name enum) ''UNSPECIFIED'', 0)] else [])
         @ map (\<lambda>lit. (to_enum_value_name (enum_name enum) (lit_name lit), lit_value lit))
             (literals enum))"

definition generate_enum :: "EEnum \<Rightarrow> nat \<Rightarrow> string list" where
  "generate_enum enum indent =
     (let pre = concat (replicate indent ''  '')
      in [pre @ ''enum '' @ to_proto_name (enum_name enum) @ '' {'']
         @ map (\<lambda>(value_name, v). pre @ ''  '' @ value_name @ '' = '' @ show_int v @ '';'')
             (enum_entries enum)
         @ [pre @ ''}''])"

fun lookup_data_type :: "string \<Rightarrow> EDataType list \<Rightarrow> string option" where
  "lookup_data_type type_name [] = None"
| "lookup_data_type type_name (dt # dts) =
     (if dt_name dt = type_name \<and> truthy (instance_class_name dt)
         \<and> proto_type_of (or_else (instance_class_name dt) []) \<noteq> None
      then proto_type_of (or_else (instance_class_name dt) [])
      else lookup_data_type type_name dts)"

definition resolve_attribute_type :: "ProtoGenerator \<Rightarrow> EAttribute \<Rightarrow> EPackage \<Rightarrow> string" where
  "resolve_attribute_type G attr current_pkg =
     (let type_name = attr_e_type attr in
      case proto_type_of type_name of
        Some t \<Rightarrow> t
      | None \<Rightarrow>
          (case lookup_data_type type_name (data_types current_pkg) of
             Some t \<Rightarrow> t
           | None \<Rightarrow>
               if list_ex (\<lambda>e. enum_name e = type_name) (enums current_pkg)
               then to_proto_name type_name
               else
                 (let enum_pkg = resolve_type (gen_resolver G) type_name (attr_source_hint attr)
                                   (pkg_name current_pkg) (enum_index (gen_resolver G))
                  in if truthy enum_pkg
                     then (if enum_pkg = Some (pkg_name current_pkg)
                           then to_proto_name type_name
                           else to_proto_package G (or_else enum_pkg []) @ ''.'' @ to_proto_name type_name)
                     else
                       (case datatype_index (gen_resolver G) type_name of
                          None \<Rightarrow> ''string''
                        | Some java_type \<Rightarrow>
                            (case proto_type_of java_type of
                               Some t \<Rightarrow> t
                             | None \<Rightarrow> ''string'')))))"

section \<open>Notions used in the statements\<close>

text \<open>
  The dataclass constructors with their default field values.
\<close>

definition new_class :: "string \<Rightarrow> EClass" where
  "new_class n =
     \<lparr>cls_name = n, abstract = False, interface = False, super_types = [],
      attributes = [], references = [], cls_package_name = [], resolved_supers = [],
      cls_annotations = []\<rparr>"

definition new_reference :: "string \<Rightarrow> string \<Rightarrow> EReference" where
  "new_reference n t =
     \<lparr>ref_name = n, ref_e_type = t, containment = False, ref_lower_bound = 0,
      ref_upper_bound = 1, opposite = None, resolved_package = None,
      ref_source_hint = None, ref_annotations = []\<rparr>"

definition empty_store :: class_store where
  "empty_store = (\<lambda>_. new_class [])"

text \<open>
  The class objects a package tree lists, and, for one class object, the names of the
  packages under which a resolution pass visits it, in the order of the visits: one
  entry for each time the object stands in a \<open>classes\<close> list that the pass walks.
\<close>

fun all_classes :: "EPackage \<Rightarrow> addr list" where
  "all_classes (EPackage n u p cs es ds subs f an) = cs @ concat (map all_classes subs)"

fun owner_names :: "EPackage \<Rightarrow> addr \<Rightarrow> string list" where
  "owner_names (EPackage n u p cs es ds subs f an) a =
     map (\<lambda>_. n) (filter (\<lambda>c. c = a) cs) @ concat (map (\<lambda>s. owner_names s a) subs)"

definition visits :: "EPackage list \<Rightarrow> addr \<Rightarrow> string list" where
  "visits pkgs a = concat (map (\<lambda>p. owner_names p a) pkgs)"

text \<open>
  The disambiguation rules of \<open>resolve_type\<close> for several candidates, each as a
  function of its own, and the chain that takes the first rule with a result.
\<close>

definition rule_stem_hint :: "resolver \<Rightarrow> string option \<Rightarrow> string list \<Rightarrow> string option" where
  "rule_stem_hint R hint cands =
     (case hint of
        None \<Rightarrow> None
      | Some s \<Rightarrow>
          (case file_stem_to_package R s of
             None \<Rightarrow> None
           | Some q \<Rightarrow> if s \<noteq> [] \<and> q \<noteq> [] \<and> q \<in> set cands then Some q else None))"

definition rule_direct_hint :: "string option \<Rightarrow> string list \<Rightarrow> string option" where
  "rule_direct_hint hint cands =
     (case hint of None \<Rightarrow> None | Some s \<Rightarrow> if s \<noteq> [] \<and> s \<in> set cands then Some s else None)"

definition rule_current :: "string \<Rightarrow> string list \<Rightarrow> string option" where
  "rule_current cur cands = (if cur \<in> set cands then Some cur else None)"

definition rule_first_seen :: "string list \<Rightarrow> string option" where
  "rule_first_seen cands = (case cands of [] \<Rightarrow> None | c # _ \<Rightarrow> Some c)"

fun first_result :: "'a option list \<Rightarrow> 'a option" where
  "first_result [] = None"
| "first_result (None # rs) = first_result rs"
| "first_result (Some x # rs) = Some x"

subsection \<open>Concrete inputs\<close>

text \<open>
  The first half of \<open>convert\<close>, with \<open>verbose\<close> off: parse the units, stop with an
  empty result when no package was found, flatten the sub-packages, build the resolver
  on the flattened list and resolve the cross-references.
\<close>

definition convert_front ::
  "(string \<times> xml_source) list \<Rightarrow> string list \<times> (error + (EPackage list \<times> class_store))" where
  "convert_front units =
     (case parse_units False units [] [] (empty_store, 0) of
        (log, Inl e) \<Rightarrow> (log, Inl e)
      | (log, Inr (all_packages, st)) \<Rightarrow>
          if all_packages = []
          then (log @ [''No packages found in the provided ecore files.''], Inr ([], fst st))
          else (let flat_packages = flatten_packages all_packages;
                    R = build_indices (fst st) flat_packages
                in (log, Inr (flat_packages, resolve R flat_packages (fst st)))))"

text \<open>
  An input file with a package \<open>root\<close>, its class \<open>Base\<close>, and a sub-package \<open>inner\<close>
  whose class \<open>Derived\<close> has the one super type \<open>#//Base\<close>; and an input file with
  one package \<open>shapes\<close>: a class \<open>Base\<close> and a class \<open>Circle\<close> with the super type
  \<open>#//Base\<close> and a reference to \<open>Base\<close>.
\<close>

definition nested_document :: Elem where
  "nested_document =
     Elem ''{http://www.eclipse.org/emf/2002/Ecore}EPackage'' [(''name'', ''root'')]
       [Elem ''eClassifiers'' [(xsi_type_key, ''ecore:EClass''), (''name'', ''Base'')] [],
        Elem ''eSubpackages'' [(''name'', ''inner'')]
          [Elem ''eClassifiers''
             [(xsi_type_key, ''ecore:EClass''), (''name'', ''Derived''), (''eSuperTypes'', ''#//Base'')]
             []]]"

definition shapes_document :: Elem where
  "shapes_document =
     Elem ''{http://www.eclipse.org/emf/2002/Ecore}EPackage'' [(''name'', ''shapes'')]
       [Elem ''eClassifiers'' [(xsi_type_key, ''ecore:EClass''), (''name'', ''Base'')] [],
        Elem ''eClassifiers''
          [(xsi_type_key, ''ecore:EClass''), (''name'', ''Circle''), (''eSuperTypes'', ''#//Base'')]
          [Elem ''eStructuralFeatures''
             [(xsi_type_key, ''ecore:EReference''), (''name'', ''parent''), (''eType'', ''#//Base'')]
             []]]"

text \<open>
  One package \<open>shapes\<close> without sub-packages: a class \<open>Base\<close> and a class \<open>Circle\<close>
  with the super type \<open>#//Base\<close> and a reference to \<open>Base\<close>.
\<close>

definition shapes_store :: class_store where
  "shapes_store =
     empty_store(0 := new_class ''Base'',
                 1 := (new_class ''Circle'')
                        \<lparr>super_types := [''#//Base''],
                         references := [new_reference ''parent'' ''Base'']\<rparr>)"

definition shapes_pkg :: EPackage where
  "shapes_pkg = EPackage ''shapes'' [] [] [0, 1] [] [] [] ''shapes.ecore'' []"

text \<open>
  Packages \<open>A\<close> and \<open>B\<close> both define a class \<open>Shape\<close>; the \<open>Shape\<close> of \<open>A\<close> has a
  reference to \<open>Shape\<close> with the source hint \<open>B\<close>. In the first pair each package is
  read from the file of its own name; in the second pair package \<open>A\<close> is read from a
  file named \<open>B.ecore\<close>.
\<close>

definition two_shapes_store :: class_store where
  "two_shapes_store =
     empty_store(0 := (new_class ''Shape'')
                        \<lparr>references := [(new_reference ''other'' ''Shape'')\<lparr>ref_source_hint := Some ''B''\<rparr>]\<rparr>,
                 1 := new_class ''Shape'')"

definition pkg_A :: EPackage where
  "pkg_A = EPackage ''A'' [] [] [0] [] [] [] ''models/A.ecore'' []"

definition pkg_B :: EPackage where
  "pkg_B = EPackage ''B'' [] [] [1] [] [] [] ''models/B.ecore'' []"

definition pkg_A_in_file_B :: EPackage where
  "pkg_A_in_file_B = EPackage ''A'' [] [] [0] [] [] [] ''v2/B.ecore'' []"

definition pkg_B_in_file_lib :: EPackage where
  "pkg_B_in_file_lib = EPackage ''B'' [] [] [1] [] [] [] ''v1/lib.ecore'' []"

text \<open>Inputs of the parser.\<close>

definition classifier_shape :: "Elem \<Rightarrow> string \<times> bool \<times> bool \<times> bool \<times> bool \<times> bool" where
  "classifier_shape e =
     (get_or e xsi_type_key [], has_literals e, has_structural_features e,
      get e ''eSuperTypes'' \<noteq> None, get e ''abstract'' \<noteq> None,
      get e ''instanceClassName'' \<noteq> None \<or> get e ''instanceTypeName'' \<noteq> None)"

definition literals_and_features :: Elem where
  "literals_and_features =
     Elem ''eClassifiers'' [(''name'', ''Mixed'')]
       [Elem ''eLiterals'' [(''name'', ''A'')] [],
        Elem ''eStructuralFeatures'' [(''name'', ''x'')] []]"

definition only_literals :: Elem where
  "only_literals =
     Elem ''eClassifiers'' [(''name'', ''Color'')] [Elem ''eLiterals'' [(''name'', ''RED'')] []]"

definition untyped_reference_feature :: Elem where
  "untyped_reference_feature =
     Elem ''eStructuralFeatures'' [(xsi_type_key, ''ecore:EReference''), (''name'', ''owner'')] []"

definition untyped_feature :: Elem where
  "untyped_feature = Elem ''eStructuralFeatures'' [(''name'', ''label'')] []"

definition untyped_attribute :: EAttribute where
  "untyped_attribute =
     \<lparr>attr_name = ''label'', attr_e_type = ''EString'', attr_lower_bound = 0,
      attr_upper_bound = 1, default_value = None, attr_source_hint = None,
      attr_annotations = []\<rparr>"

definition class_with :: "Elem \<Rightarrow> Elem" where
  "class_with feature =
     Elem ''eClassifiers'' [(xsi_type_key, ''ecore:EClass''), (''name'', ''Item'')] [feature]"

definition plain_generator :: ProtoGenerator where
  "plain_generator =
     \<lparr>gen_resolver = empty_resolver, options_package = ''ui'', java_package_prefix = [],
      go_package_prefix = [], proto_package_prefix = []\<rparr>"

definition empty_pkg :: EPackage where
  "empty_pkg = EPackage ''p'' [] [] [] [] [] [] ''p.ecore'' []"

text \<open>
  A malformed unit is one that is not well-formed XML. The exceptions that the
  \<open>except ET.ParseError\<close> clause of the parsing loop catches; the report of a malformed
  unit on \<open>stderr\<close>; a batch of three units of which the second is not well-formed; and
  a batch in which a well-formed document with the upper bound \<open>many\<close> stands before
  the unit that is not well-formed.
\<close>

definition is_malformed :: "xml_source \<Rightarrow> bool" where
  "is_malformed src = (case src of Malformed msg \<Rightarrow> True | _ \<Rightarrow> False)"

definition caught :: "error \<Rightarrow> bool" where
  "caught e = (case e of ParseError msg \<Rightarrow> True | _ \<Rightarrow> False)"

definition error_line :: "string \<Rightarrow> string \<Rightarrow> string" where
  "error_line filepath msg = ''Error parsing '' @ filepath @ '': '' @ msg"

definition good_document :: Elem where
  "good_document =
     Elem ''{http://www.eclipse.org/emf/2002/Ecore}EPackage'' [(''name'', ''shapes'')]
       [Elem ''eClassifiers'' [(xsi_type_key, ''ecore:EClass''), (''name'', ''Base'')] []]"

definition other_document :: Elem where
  "other_document =
     Elem ''{http://www.eclipse.org/emf/2002/Ecore}EPackage'' [(''name'', ''colors'')]
       [Elem ''eClassifiers'' [(xsi_type_key, ''ecore:EEnum''), (''name'', ''Color'')]
          [Elem ''eLiterals'' [(''name'', ''RED'')] []]]"

definition batch_with_bad_unit :: "(string \<times> xml_source) list" where
  "batch_with_bad_unit =
     [(''shapes.ecore'', Document good_document),
      (''broken.ecore'', Malformed ''mismatched tag: line 3, column 2''),
      (''colors.ecore'', Document other_document)]"

definition bounds_document :: Elem where
  "bounds_document =
     Elem ''{http://www.eclipse.org/emf/2002/Ecore}EPackage'' [(''name'', ''limits'')]
       [Elem ''eClassifiers'' [(xsi_type_key, ''ecore:EClass''), (''name'', ''Range'')]
          [Elem ''eStructuralFeatures''
             [(xsi_type_key, ''ecore:EAttribute''), (''name'', ''hi''),
              (''eType'', ''ecore:EDataType http://www.eclipse.org/emf/2002/Ecore#//EInt''),
              (''upperBound'', ''many'')] []]]"

definition batch_with_aborting_unit :: "(string \<times> xml_source) list" where
  "batch_with_aborting_unit =
     [(''shapes.ecore'', Document good_document),
      (''limits.ecore'', Document bounds_document),
      (''broken.ecore'', Malformed ''mismatched tag: line 3, column 2''),
      (''colors.ecore'', Document other_document)]"

text \<open>
  The annotation details in the order in which \<open>scan_packages\<close> walks them: for
  each detail the shortened source, the full source and the key/value pair; the
  registration of one such detail; and the elements of a list in the order of their
  first occurrence.
\<close>

definition annotation_details :: "EAnnotation \<Rightarrow> (string \<times> string \<times> string \<times> string) list" where
  "annotation_details ann = map (\<lambda>kv. (shorten_source (source ann), source ann, kv)) (details ann)"

definition class_details :: "class_store \<Rightarrow> addr \<Rightarrow> (string \<times> string \<times> string \<times> string) list" where
  "class_details h a =
     concat (map annotation_details (cls_annotations (h a)))
     @ concat (map (\<lambda>at. concat (map annotation_details (attr_annotations at))) (attributes (h a)))
     @ concat (map (\<lambda>r. concat (map annotation_details (ref_annotations r))) (references (h a)))"

fun package_details :: "class_store \<Rightarrow> EPackage \<Rightarrow> (string \<times> string \<times> string \<times> string) list" where
  "package_details h (EPackage n u p cs es ds subs f an) =
     concat (map annotation_details an)
     @ concat (map (class_details h) cs)
     @ concat (map (\<lambda>e. concat (map annotation_details (enum_annotations e))) es)
     @ concat (map (package_details h) subs)"

definition detail_walk :: "class_store \<Rightarrow> EPackage list \<Rightarrow> (string \<times> string \<times> string \<times> string) list" where
  "detail_walk h pkgs = concat (map (package_details h) pkgs)"

definition walk_keys :: "class_store \<Rightarrow> EPackage list \<Rightarrow> (string \<times> string) list" where
  "walk_keys h pkgs = map (\<lambda>(short, full, kv). (short, fst kv)) (detail_walk h pkgs)"

definition first_seen :: "'a list \<Rightarrow> 'a list" where
  "first_seen xs = rev (remdups (rev xs))"

definition register :: "string \<times> string \<times> string \<times> string \<Rightarrow> AnnotationCollector \<Rightarrow> AnnotationCollector" where
  "register t = register_detail (fst t) (fst (snd t)) (snd (snd t))"

definition add_key :: "'a \<Rightarrow> 'a list \<Rightarrow> 'a list" where
  "add_key k ks = (if k \<in> set ks then ks else ks @ [k])"

definition numbered :: "AnnotationCollector \<Rightarrow> bool" where
  "numbered c \<longleftrightarrow>
     next_field_number c = EXTENSION_FIELD_START + int (length (options c))
     \<and> map (\<lambda>lo. field_number (snd lo)) (options c)
         = map (\<lambda>i. EXTENSION_FIELD_START + int i) [0..<length (options c)]"

text \<open>
  The shape of a shortened source: not empty, made of lower-case letters, digits and
  underscores, with no underscore at either end and no two underscores in a row.
\<close>

definition plain_char :: "char \<Rightarrow> bool" where
  "plain_char c = (is_lower c \<or> is_digit c \<or> c = CHR ''_'')"

fun no_double :: "string \<Rightarrow> bool" where
  "no_double (a # b # r) = (\<not> (a = CHR ''_'' \<and> b = CHR ''_'') \<and> no_double (b # r))"
| "no_double s = True"

definition short_ok :: "string \<Rightarrow> bool" where
  "short_ok s \<longleftrightarrow>
     s \<noteq> [] \<and> list_all plain_char s \<and> hd s \<noteq> CHR ''_'' \<and> last s \<noteq> CHR ''_'' \<and> no_double s"

text \<open>
  A class with annotations of two sources that share the key \<open>label\<close>.
\<close>

definition annotated_store :: class_store where
  "annotated_store =
     empty_store(0 := (new_class ''Person'')
        \<lparr>cls_annotations :=
           [\<lparr>source = ''http://example.com/ui'',
             details = [(''label'', ''Person''), (''tooltip'', ''A person'')]\<rparr>,
            \<lparr>source = ''http://www.eclipse.org/emf/2002/GenModel'',
             details = [(''label'', ''true'')]\<rparr>]\<rparr>)"

definition annotated_pkg :: EPackage where
  "annotated_pkg = EPackage ''people'' [] [] [0] [] [] [] ''people.ecore'' []"

text \<open>Enums, and the number of value lines that hold the number 0.\<close>

definition new_enum :: "string \<Rightarrow> (string \<times> int) list \<Rightarrow> EEnum" where
  "new_enum n lits =
     \<lparr>enum_name = n, literals = map (\<lambda>(l, v). \<lparr>lit_name = l, lit_value = v\<rparr>) lits,
      enum_package_name = [], enum_annotations = []\<rparr>"

definition status_enum :: EEnum where
  "status_enum = new_enum ''Status'' [(''Active'', 1), (''Closed'', 2)]"

definition two_zero_enum :: EEnum where
  "two_zero_enum = new_enum ''Level'' [(''Low'', 0), (''Default'', 0), (''High'', 1)]"

definition zero_count :: "(string \<times> int) list \<Rightarrow> nat" where
  "zero_count entries = length (filter (\<lambda>e. snd e = 0) entries)"

section \<open>Properties of the resolver\<close>

subsection \<open>What a resolution pass does to one class object\<close>

lemma fold_at:
  assumes "\<And>x h. x \<in> set xs \<Longrightarrow> f x h b = fold k (g x) (h b)"
  shows "fold f xs h b = fold k (concat (map g xs)) (h b)"
  using assms
proof (induction xs arbitrary: h)
  case Nil
  then show ?case by simp
next
  case (Cons x xs)
  have "fold f xs (f x h) b = fold k (concat (map g xs)) (f x h b)"
    using Cons by simp
  then show ?case using Cons.prems[of x h] by simp
qed

lemma visit_class_at:
  "visit_class R n a h b = fold (resolve_class R) (if a = b then [n] else []) (h b)"
  by (simp add: visit_class_def)

lemma fold_visit_class_at:
  "fold (visit_class R n) cs h b
     = fold (resolve_class R) (map (\<lambda>_. n) (filter (\<lambda>c. c = b) cs)) (h b)"
proof -
  have "fold (visit_class R n) cs h b
      = fold (resolve_class R) (concat (map (\<lambda>a. if a = b then [n] else []) cs)) (h b)"
    by (rule fold_at) (rule visit_class_at)
  moreover have "concat (map (\<lambda>a. if a = b then [n] else []) cs)
      = map (\<lambda>_. n) (filter (\<lambda>c. c = b) cs)"
    by (induction cs) simp_all
  ultimately show ?thesis by simp
qed

lemma resolve_package_at:
  "resolve_package R pkg h b = fold (resolve_class R) (owner_names pkg b) (h b)"
proof (induction R pkg h rule: resolve_package.induct)
  case (1 R n u p cs es ds subs f an h)
  let ?h1 = "fold (visit_class R n) cs h"
  have "fold (resolve_package R) subs ?h1 b
        = fold (resolve_class R) (concat (map (\<lambda>s. owner_names s b) subs)) (?h1 b)"
    by (rule fold_at) (rule 1)
  then show ?case
    by (simp add: fold_visit_class_at)
qed

text \<open>
  The class object at an address after the pass is the object before the pass with
  \<open>resolve_class\<close> applied once for every visit, in the order of the visits.
\<close>

lemma resolve_at:
  "resolve R pkgs h b = fold (resolve_class R) (visits pkgs b) (h b)"
  unfolding resolve_def visits_def
  by (rule fold_at) (rule resolve_package_at)

lemma resolve_reference_absorb:
  "resolve_reference R n (resolve_reference R m r) = resolve_reference R n r"
  by (simp add: resolve_reference_def Let_def)

lemma references_resolve_class:
  "references (resolve_class R n c) = map (resolve_reference R n) (references c)"
  by (simp add: resolve_class_def)

lemma references_fold_resolve_class:
  "references (fold (resolve_class R) ns c)
     = (if ns = [] then references c else map (resolve_reference R (last ns)) (references c))"
proof (induction ns arbitrary: c)
  case Nil
  then show ?case by simp
next
  case (Cons n ns)
  show ?case
    by (simp add: Cons references_resolve_class resolve_reference_absorb comp_def)
qed

lemma super_types_fold_resolve_class:
  "super_types (fold (resolve_class R) ns c) = super_types c"
  by (induction ns arbitrary: c) (simp_all add: resolve_class_def)

text \<open>Every visit appends one pair per raw super-type token, in the order of the tokens.\<close>

lemma resolved_supers_fold_resolve_class:
  "resolved_supers (fold (resolve_class R) ns c)
     = resolved_supers c @ concat (map (\<lambda>n. map (resolve_super R n) (super_types c)) ns)"
proof (induction ns arbitrary: c)
  case Nil
  then show ?case by simp
next
  case (Cons n ns)
  show ?case
    by (simp add: Cons) (simp add: resolve_class_def)
qed

lemma owner_names_empty_iff:
  "owner_names pkg a = [] \<longleftrightarrow> a \<notin> set (all_classes pkg)"
proof (induction pkg)
  case (EPackage n u p cs es ds subs f an)
  have "filter (\<lambda>c. c = a) cs = [] \<longleftrightarrow> a \<notin> set cs"
    by (auto simp: filter_empty_conv)
  then show ?case using EPackage by auto
qed

lemma visits_empty_iff:
  "visits pkgs a = [] \<longleftrightarrow> a \<notin> set (concat (map all_classes pkgs))"
  by (auto simp: visits_def owner_names_empty_iff)

lemma resolved_package_resolve_reference:
  "resolved_package (resolve_reference R n r) \<noteq> None"
  by (auto simp: resolve_reference_def Let_def truthy_def split: option.splits)


lemma resolve_twice_references:
  "references (resolve R pkgs (resolve R pkgs h) a) = references (resolve R pkgs h a)"
  by (simp add: resolve_at references_fold_resolve_class resolve_reference_absorb comp_def)

subsection \<open>Second resolution call\<close>

text \<open>
  C1. The claim: a second call of \<open>resolve\<close> leaves every \<open>resolved_supers\<close> list and
  every \<open>resolved_package\<close> as the first call left them. The references keep their
  values (\<open>resolve_twice_references\<close>), but \<open>_resolve_package\<close> appends to
  \<open>resolved_supers\<close> without clearing it: for the input file with the package
  \<open>shapes\<close>, whose class \<open>Circle\<close> has one super type, the list has one pair after
  the resolution that \<open>convert\<close> runs, and two after a second call.
\<close>

theorem resolve_twice_extends_supers:
  "(case snd (convert_front [(''shapes.ecore'', Document shapes_document)]) of
      Inl e \<Rightarrow> False
    | Inr (flat_packages, h) \<Rightarrow>
        cls_name (h 1) = ''Circle''
        \<and> super_types (h 1) = [''#//Base'']
        \<and> resolved_supers (h 1) = [(''shapes'', ''Base'')]
        \<and> resolved_supers (resolve (build_indices h flat_packages) flat_packages h 1)
            = [(''shapes'', ''Base''), (''shapes'', ''Base'')]
        \<and> map resolved_package (references (h 1)) = [Some ''shapes'']
        \<and> map resolved_package
              (references (resolve (build_indices h flat_packages) flat_packages h 1))
            = [Some ''shapes''])"
  by code_simp

subsection \<open>Disambiguation order\<close>

lemma first_seen_hd: "cands \<noteq> [] \<Longrightarrow> rule_first_seen cands = Some (hd cands)"
  by (cases cands) (simp_all add: rule_first_seen_def)

lemma resolve_type_many:
  assumes "index type_name = Some cands" and "1 < length cands"
  shows "resolve_type R type_name hint cur index
           = first_result [rule_stem_hint R hint cands, rule_direct_hint hint cands,
                           rule_current cur cands, rule_first_seen cands]"
proof -
  have ne: "cands \<noteq> []" and n1: "length cands \<noteq> 1"
    using assms(2) by auto
  show ?thesis
    using assms(1) ne n1
    by (auto simp: resolve_type_def Let_def rule_stem_hint_def rule_direct_hint_def
        rule_current_def first_seen_hd truthy_def or_else_def split: option.splits)
qed

text \<open>
  C4, as the claim states it, fails: packages \<open>A\<close> and \<open>B\<close> both define \<open>Shape\<close>, the
  reference in \<open>A\<close> carries the source hint \<open>B\<close>, and it resolves to \<open>A\<close>. Package
  \<open>A\<close> was read from a file named \<open>B.ecore\<close> after package \<open>B\<close> was indexed, so the
  file-stem index maps \<open>B\<close> to \<open>A\<close>, and rule (1) comes before rule (2).
\<close>

theorem hint_resolves_to_current_counterexample:
  "class_index (build_indices two_shapes_store [pkg_B_in_file_lib, pkg_A_in_file_B]) ''Shape''
     = Some [''B'', ''A'']
   \<and> map ref_source_hint (references (two_shapes_store 0)) = [Some ''B'']
   \<and> map resolved_package
       (references
         (resolve (build_indices two_shapes_store [pkg_B_in_file_lib, pkg_A_in_file_B])
            [pkg_B_in_file_lib, pkg_A_in_file_B] two_shapes_store 0))
     = [Some ''A'']"
  by code_simp

text \<open>
  C4, amended. With two or more candidates \<open>resolve_type\<close> returns the result of the
  first of these rules that has one, and the result is a candidate: (1) the hint is not
  empty and the file-stem index maps it to a non-empty name in the candidate set;
  (2) the hint is not empty and is itself a candidate; (3) the current package is a
  candidate; (4) the first-seen candidate. A hint \<open>b\<close> that names a candidate wins over
  the current package whenever the file-stem index does not map \<open>b\<close> to another
  candidate.
\<close>

theorem resolve_type_rule_chain:
  assumes "index type_name = Some cands" and "1 < length cands"
  shows "resolve_type R type_name hint cur index
           = first_result [rule_stem_hint R hint cands, rule_direct_hint hint cands,
                           rule_current cur cands, rule_first_seen cands]
       \<and> resolve_type R type_name hint cur index \<in> Some ` set cands
       \<and> (b \<in> set cands \<and> b \<noteq> []
            \<and> (\<forall>q. file_stem_to_package R b = Some q \<longrightarrow> q = b \<or> q = [] \<or> q \<notin> set cands)
          \<longrightarrow> resolve_type R type_name (Some b) cur index = Some b)"
proof (intro conjI impI)
  show chain: "resolve_type R type_name hint cur index
           = first_result [rule_stem_hint R hint cands, rule_direct_hint hint cands,
                           rule_current cur cands, rule_first_seen cands]"
    by (rule resolve_type_many[where index=index and type_name=type_name, OF assms])
  have ne: "cands \<noteq> []" using assms(2) by auto
  show "resolve_type R type_name hint cur index \<in> Some ` set cands"
    unfolding chain using ne
    by (auto simp: rule_stem_hint_def rule_direct_hint_def rule_current_def first_seen_hd
        split: option.splits)
next
  assume b: "b \<in> set cands \<and> b \<noteq> []
            \<and> (\<forall>q. file_stem_to_package R b = Some q \<longrightarrow> q = b \<or> q = [] \<or> q \<notin> set cands)"
  have "resolve_type R type_name (Some b) cur index
           = first_result [rule_stem_hint R (Some b) cands, rule_direct_hint (Some b) cands,
                           rule_current cur cands, rule_first_seen cands]"
    by (rule resolve_type_many[where index=index and type_name=type_name, OF assms])
  then show "resolve_type R type_name (Some b) cur index = Some b"
    using b by (auto simp: rule_stem_hint_def rule_direct_hint_def split: option.splits)
qed

theorem resolve_type_rule_chain_witness:
  "class_index (build_indices two_shapes_store [pkg_A, pkg_B]) ''Shape'' = Some [''A'', ''B'']
   \<and> resolve_type (build_indices two_shapes_store [pkg_A, pkg_B]) ''Shape'' (Some ''B'') ''A''
        (class_index (build_indices two_shapes_store [pkg_A, pkg_B])) = Some ''B''"
proof -
  let ?R = "build_indices two_shapes_store [pkg_A, pkg_B]"
  have idx: "class_index ?R ''Shape'' = Some [''A'', ''B'']"
    by code_simp
  have len: "1 < length [''A'', ''B'']"
    by simp
  have stem: "file_stem_to_package ?R ''B'' = Some ''B''"
    by code_simp
  have "''B'' \<in> set [''A'', ''B''] \<and> ''B'' \<noteq> []
         \<and> (\<forall>q. file_stem_to_package ?R ''B'' = Some q
                \<longrightarrow> q = ''B'' \<or> q = [] \<or> q \<notin> set [''A'', ''B''])
       \<longrightarrow> resolve_type ?R ''Shape'' (Some ''B'') ''A'' (class_index ?R) = Some ''B''"
    using resolve_type_rule_chain[where index="class_index ?R" and type_name="''Shape''"
        and R="?R" and hint="Some ''B''" and cur="''A''" and b="''B''", OF idx len]
    by (rule conjunct2[THEN conjunct2])
  then have "resolve_type ?R ''Shape'' (Some ''B'') ''A'' (class_index ?R) = Some ''B''"
    by (simp add: stem)
  then show ?thesis
    using idx by (rule conjI[rotated])
qed

subsection \<open>Super types\<close>

text \<open>
  C6. The claim: a class with N raw super-type tokens has N entries in
  \<open>resolved_supers\<close> after one resolution pass. \<open>convert\<close> resolves over the
  flattened package list, and \<open>_resolve_package\<close> walks into the sub-packages as well,
  so a class of a sub-package is visited once through its parent and once more as an
  entry of the flattened list, and every visit appends
  (\<open>resolved_supers_fold_resolve_class\<close>): for the input file with the sub-package
  \<open>inner\<close>, the class \<open>Derived\<close> has one raw super type and two entries after the one
  pass.
\<close>

theorem resolve_flattened_duplicates_supers:
  "(case snd (convert_front [(''model.ecore'', Document nested_document)]) of
      Inl e \<Rightarrow> False
    | Inr (flat_packages, h) \<Rightarrow>
        map pkg_name flat_packages = [''root'', ''inner'']
        \<and> cls_name (h 1) = ''Derived''
        \<and> super_types (h 1) = [''#//Base'']
        \<and> resolved_supers (h 1) = [(''root'', ''Base''), (''root'', ''Base'')])"
  by code_simp

subsection \<open>References\<close>

text \<open>
  C9. A reference is resolved against the class index first; when that finds no
  package (nothing, or a package whose name is the empty string) against the enum
  index; when that finds none either, the current package name is taken. After a
  resolution pass the references of every class of the packages are the references
  before the pass, each resolved in this way under the name of a package that lists
  the class, and none has \<open>resolved_package = None\<close>.
\<close>

theorem resolve_reference_fallback_chain:
  "resolved_package (resolve_reference R cur ref) =
      (let by_class = resolve_type R (ref_e_type ref) (ref_source_hint ref) cur (class_index R);
           by_enum = resolve_type R (ref_e_type ref) (ref_source_hint ref) cur (enum_index R)
       in if truthy by_class then by_class
          else if truthy by_enum then by_enum
          else Some cur)
   \<and> (\<forall>a \<in> set (concat (map all_classes pkgs)).
        (\<exists>n \<in> set (visits pkgs a).
            references (resolve R pkgs h a) = map (resolve_reference R n) (references (h a)))
        \<and> (\<forall>r \<in> set (references (resolve R pkgs h a)). resolved_package r \<noteq> None))"
proof (intro conjI ballI)
  show "resolved_package (resolve_reference R cur ref) =
      (let by_class = resolve_type R (ref_e_type ref) (ref_source_hint ref) cur (class_index R);
           by_enum = resolve_type R (ref_e_type ref) (ref_source_hint ref) cur (enum_index R)
       in if truthy by_class then by_class
          else if truthy by_enum then by_enum
          else Some cur)"
    by (auto simp: resolve_reference_def Let_def truthy_def or_else_def split: option.splits)
next
  fix a assume a: "a \<in> set (concat (map all_classes pkgs))"
  then have ne: "visits pkgs a \<noteq> []"
    using visits_empty_iff[of pkgs a] by blast
  have refs: "references (resolve R pkgs h a)
      = map (resolve_reference R (last (visits pkgs a))) (references (h a))"
    using ne by (simp add: resolve_at references_fold_resolve_class)
  show "\<exists>n \<in> set (visits pkgs a).
            references (resolve R pkgs h a) = map (resolve_reference R n) (references (h a))"
    using refs ne last_in_set by blast
  fix r assume "r \<in> set (references (resolve R pkgs h a))"
  then show "resolved_package r \<noteq> None"
    unfolding refs using resolved_package_resolve_reference by auto
qed

theorem resolve_reference_fallback_chain_witness:
  "1 \<in> set (concat (map all_classes [shapes_pkg]))
   \<and> list_all (\<lambda>r. resolved_package r \<noteq> None)
        (references (resolve (build_indices shapes_store [shapes_pkg]) [shapes_pkg] shapes_store 1))"
proof -
  have m: "1 \<in> set (concat (map all_classes [shapes_pkg]))"
    by (simp add: shapes_pkg_def)
  show ?thesis
    using m resolve_reference_fallback_chain
      [of "build_indices shapes_store [shapes_pkg]" "[]" "new_reference [] []" "[shapes_pkg]" shapes_store]
    by (simp add: list_all_iff)
qed

section \<open>Properties of the parser\<close>

subsection \<open>Classification of package children\<close>

lemma truthy_py_or: "truthy (py_or a b) \<Longrightarrow> a \<noteq> None \<or> b \<noteq> None"
  by (auto simp: py_or_def truthy_def split: if_splits option.splits)

lemma classify_eq:
  "classify child =
     (if contains ''EClass'' (get_or child xsi_type_key [])
         \<or> (get_or child xsi_type_key [] = [] \<and> looks_like_class child) then IsClass
      else if contains ''EEnum'' (get_or child xsi_type_key []) \<or> has_literals child then IsEnum
      else if contains ''EDataType'' (get_or child xsi_type_key [])
              \<or> get child ''instanceClassName'' \<noteq> None \<or> get child ''instanceTypeName'' \<noteq> None
           then IsDataType
      else IsClass)"
  using truthy_py_or[of "get child ''instanceClassName''" "get child ''instanceTypeName''"]
  by (auto simp: classify_def Let_def looks_like_enum_def looks_like_datatype_def)

text \<open>
  C2, amended. For an \<open>eClassifiers\<close> child whose \<open>xsi:type\<close> names \<open>EClass\<close> the
  result is a class. Without an \<open>xsi:type\<close> the parser applies, in this order:
  (1) structural-feature-like children, or an \<open>eSuperTypes\<close> or \<open>abstract\<close> attribute:
  class; (2) else literal-like children: enum; (3) else an \<open>instanceClassName\<close> or
  \<open>instanceTypeName\<close> attribute: data type; (4) else class. With an \<open>xsi:type\<close> that
  names none of the three kinds: (1) literal-like children: enum; (2) else an
  instance-type attribute: data type; (3) else class. Two elements with the same
  shape (discriminator, kinds of children, presence of these attributes) get the same
  classification.
\<close>

theorem classify_order:
  "(contains ''EClass'' (get_or child xsi_type_key []) \<longrightarrow> classify child = IsClass)
   \<and> (get_or child xsi_type_key [] = [] \<longrightarrow>
        classify child =
          (if has_structural_features child \<or> get child ''eSuperTypes'' \<noteq> None
              \<or> get child ''abstract'' \<noteq> None then IsClass
           else if has_literals child then IsEnum
           else if get child ''instanceClassName'' \<noteq> None \<or> get child ''instanceTypeName'' \<noteq> None
                then IsDataType
           else IsClass))
   \<and> (get_or child xsi_type_key [] \<noteq> []
        \<and> \<not> contains ''EClass'' (get_or child xsi_type_key [])
        \<and> \<not> contains ''EEnum'' (get_or child xsi_type_key [])
        \<and> \<not> contains ''EDataType'' (get_or child xsi_type_key []) \<longrightarrow>
        classify child =
          (if has_literals child then IsEnum
           else if get child ''instanceClassName'' \<noteq> None \<or> get child ''instanceTypeName'' \<noteq> None
                then IsDataType
           else IsClass))
   \<and> (classifier_shape child = classifier_shape other \<longrightarrow> classify child = classify other)"
proof (intro conjI impI)
  show "classify child = IsClass" if "contains ''EClass'' (get_or child xsi_type_key [])"
    using that by (simp add: classify_eq)
  show "classify child =
          (if has_structural_features child \<or> get child ''eSuperTypes'' \<noteq> None
              \<or> get child ''abstract'' \<noteq> None then IsClass
           else if has_literals child then IsEnum
           else if get child ''instanceClassName'' \<noteq> None \<or> get child ''instanceTypeName'' \<noteq> None
                then IsDataType
           else IsClass)" if "get_or child xsi_type_key [] = []"
    using that by (simp add: classify_eq looks_like_class_def)
  show "classify child =
          (if has_literals child then IsEnum
           else if get child ''instanceClassName'' \<noteq> None \<or> get child ''instanceTypeName'' \<noteq> None
                then IsDataType
           else IsClass)"
    if "get_or child xsi_type_key [] \<noteq> []
        \<and> \<not> contains ''EClass'' (get_or child xsi_type_key [])
        \<and> \<not> contains ''EEnum'' (get_or child xsi_type_key [])
        \<and> \<not> contains ''EDataType'' (get_or child xsi_type_key [])"
    using that by (simp add: classify_eq)
  show "classify child = classify other" if "classifier_shape child = classifier_shape other"
  proof -
    from that have
      "get_or child xsi_type_key [] = get_or other xsi_type_key []"
      "has_literals child = has_literals other"
      "has_structural_features child = has_structural_features other"
      "(get child ''eSuperTypes'' \<noteq> None) = (get other ''eSuperTypes'' \<noteq> None)"
      "(get child ''abstract'' \<noteq> None) = (get other ''abstract'' \<noteq> None)"
      "(get child ''instanceClassName'' \<noteq> None \<or> get child ''instanceTypeName'' \<noteq> None)
        = (get other ''instanceClassName'' \<noteq> None \<or> get other ''instanceTypeName'' \<noteq> None)"
      by (simp_all add: classifier_shape_def)
    then show ?thesis
      unfolding classify_eq[of child] classify_eq[of other] looks_like_class_def by presburger
  qed
qed

theorem classify_order_witness:
  "get_or only_literals xsi_type_key [] = [] \<and> classify only_literals = IsEnum"
proof -
  have x: "get_or only_literals xsi_type_key [] = []"
    by code_simp
  have "classify only_literals =
          (if has_structural_features only_literals \<or> get only_literals ''eSuperTypes'' \<noteq> None
              \<or> get only_literals ''abstract'' \<noteq> None then IsClass
           else if has_literals only_literals then IsEnum
           else if get only_literals ''instanceClassName'' \<noteq> None
                   \<or> get only_literals ''instanceTypeName'' \<noteq> None
                then IsDataType
           else IsClass)"
    using classify_order[of only_literals only_literals] x by blast
  moreover have "\<not> has_structural_features only_literals" "get only_literals ''eSuperTypes'' = None"
    "get only_literals ''abstract'' = None" "has_literals only_literals"
    by code_simp+
  ultimately show ?thesis using x by simp
qed

text \<open>
  C2, as the claim states it, fails: an element without \<open>xsi:type\<close> that has a
  literal child and a structural-feature child is a class, where rule (1) of the claim
  makes it an enum. The class test for an element without discriminator comes first in
  \<open>_parse_package\<close>.
\<close>

theorem literal_children_classified_class_counterexample:
  "get_or literals_and_features xsi_type_key [] = []
   \<and> has_literals literals_and_features
   \<and> classify literals_and_features = IsClass"
  by code_simp

subsection \<open>Structural features without a type\<close>

lemma proto_type_of_EString: "proto_type_of ''EString'' = Some ''string''"
  by code_simp

lemma parse_attribute_untyped:
  assumes "get_or child ''eType'' [] = []" and "parse_attribute child = Inr a"
  shows "attr_e_type a = ''EString'' \<and> attr_source_hint a = None"
  using assms
  by (auto simp: parse_attribute_def extract_type_info_def split: sum.splits)

text \<open>
  C10, amended. An absent or empty type token is extracted as \<open>EString\<close> with no
  source hint. A structural feature with such a token whose \<open>xsi:type\<close> does not name
  \<open>EReference\<close> is classified as an attribute and appended to the attributes of its
  class; its type is \<open>EString\<close>, it has no source hint, and it is rendered with the proto
  scalar type \<open>string\<close>.
\<close>

theorem untyped_feature_defaults_to_string:
  "extract_type_info [] = Inr (''EString'', None)
   \<and> (get_or child ''eType'' [] = [] \<and> \<not> contains ''EReference'' (get_or child xsi_type_key [])
        \<longrightarrow> classify_feature child = Inr IsAttribute)
   \<and> (get_or child ''eType'' [] = [] \<and> parse_attribute child = Inr a
        \<longrightarrow> attr_e_type a = ''EString'' \<and> attr_source_hint a = None
            \<and> resolve_attribute_type G a pkg = ''string'')
   \<and> (strip_ns (tag child) = ''eStructuralFeatures'' \<and> get_or child ''eType'' [] = []
        \<and> \<not> contains ''EReference'' (get_or child xsi_type_key [])
        \<and> parse_attribute child = Inr a
        \<longrightarrow> parse_features (child # rest) cls
              = parse_features rest (cls\<lparr>attributes := attributes cls @ [a]\<rparr>))"
proof (intro conjI impI)
  show "extract_type_info [] = Inr (''EString'', None)"
    by (simp add: extract_type_info_def)
  show cf: "classify_feature child = Inr IsAttribute"
    if "get_or child ''eType'' [] = [] \<and> \<not> contains ''EReference'' (get_or child xsi_type_key [])"
    using that by (simp add: classify_feature_def Let_def)
  show "attr_e_type a = ''EString''" "attr_source_hint a = None"
    if "get_or child ''eType'' [] = [] \<and> parse_attribute child = Inr a"
    using that parse_attribute_untyped by blast+
  show "resolve_attribute_type G a pkg = ''string''"
    if "get_or child ''eType'' [] = [] \<and> parse_attribute child = Inr a"
  proof -
    have "attr_e_type a = ''EString''"
      using that parse_attribute_untyped by blast
    then show ?thesis
      by (simp add: resolve_attribute_type_def proto_type_of_EString)
  qed
  show "parse_features (child # rest) cls
          = parse_features rest (cls\<lparr>attributes := attributes cls @ [a]\<rparr>)"
    if "strip_ns (tag child) = ''eStructuralFeatures'' \<and> get_or child ''eType'' [] = []
        \<and> \<not> contains ''EReference'' (get_or child xsi_type_key [])
        \<and> parse_attribute child = Inr a"
    using that by (simp add: classify_feature_def Let_def)
qed

theorem untyped_feature_defaults_to_string_witness:
  "get_or untyped_feature ''eType'' [] = []
   \<and> parse_attribute untyped_feature = Inr untyped_attribute
   \<and> classify_feature untyped_feature = Inr IsAttribute
   \<and> resolve_attribute_type plain_generator untyped_attribute empty_pkg = ''string''
   \<and> parse_features [untyped_feature] (new_class ''Item'')
       = Inr ((new_class ''Item'')\<lparr>attributes := [untyped_attribute]\<rparr>)"
proof -
  have e: "get_or untyped_feature ''eType'' [] = []"
    by code_simp
  have x: "\<not> contains ''EReference'' (get_or untyped_feature xsi_type_key [])"
    by code_simp
  have t: "strip_ns (tag untyped_feature) = ''eStructuralFeatures''"
    by code_simp
  have p: "parse_attribute untyped_feature = Inr untyped_attribute"
    by code_simp
  have a: "attributes (new_class ''Item'') = []"
    by (simp add: new_class_def)
  show ?thesis
    using untyped_feature_defaults_to_string
      [of untyped_feature untyped_attribute plain_generator empty_pkg "[]" "new_class ''Item''"]
      e x t p a
    by simp
qed

text \<open>
  C10, as the claim states it, fails: a structural feature without \<open>eType\<close> whose
  \<open>xsi:type\<close> is \<open>ecore:EReference\<close> is trusted to be a reference. Its type name is
  \<open>EString\<close>, but it is stored in \<open>references\<close>, not in \<open>attributes\<close>.
\<close>

theorem untyped_reference_feature_counterexample:
  "get_or untyped_reference_feature ''eType'' [] = []
   \<and> classify_feature untyped_reference_feature = Inr IsReference
   \<and> (case parse_class (class_with untyped_reference_feature) ''p'' of
         Inl e \<Rightarrow> False
       | Inr cls \<Rightarrow> attributes cls = [] \<and> map ref_e_type (references cls) = [''EString''])"
  by code_simp

subsection \<open>Malformed input units\<close>

lemma py_int_not_caught: "py_int s \<noteq> Inl (ParseError m)"
  by (simp add: py_int_def Let_def)

lemma extract_type_info_not_caught: "extract_type_info s \<noteq> Inl (ParseError m)"
  by (simp add: extract_type_info_def Let_def split: option.splits list.splits)

lemma extract_type_name_not_caught: "extract_type_name s \<noteq> Inl (ParseError m)"
  using extract_type_info_not_caught[of s m]
  by (auto simp: extract_type_name_def split: sum.splits)

lemma is_likely_reference_not_caught: "is_likely_reference s \<noteq> Inl (ParseError m)"
  using extract_type_name_not_caught[of s m]
  by (auto simp: is_likely_reference_def split: sum.splits)

lemma classify_feature_not_caught: "classify_feature child \<noteq> Inl (ParseError m)"
  using is_likely_reference_not_caught[of "get_or child ''eType'' []" m]
  by (auto simp: classify_feature_def Let_def split: sum.splits)

lemma parse_attribute_not_caught: "parse_attribute elem \<noteq> Inl (ParseError m)"
  using extract_type_info_not_caught[of "get_or elem ''eType'' []" m]
    py_int_not_caught[of "get_or elem ''lowerBound'' ''0''" m]
    py_int_not_caught[of "get_or elem ''upperBound'' ''1''" m]
  by (auto simp: parse_attribute_def split: sum.splits prod.splits)

lemma parse_reference_not_caught: "parse_reference elem \<noteq> Inl (ParseError m)"
  using extract_type_info_not_caught[of "get_or elem ''eType'' []" m]
    py_int_not_caught[of "get_or elem ''lowerBound'' ''0''" m]
    py_int_not_caught[of "get_or elem ''upperBound'' ''1''" m]
  by (auto simp: parse_reference_def split: sum.splits prod.splits)

lemma parse_features_not_caught: "parse_features cs cls \<noteq> Inl (ParseError m)"
proof (induction cs arbitrary: cls)
  case Nil
  show ?case by simp
next
  case (Cons child rest)
  show ?case
    using classify_feature_not_caught[of child m] parse_attribute_not_caught[of child m]
      parse_reference_not_caught[of child m] Cons.IH
    by (auto split: sum.splits feature_kind.splits)
qed

lemma parse_class_not_caught: "parse_class elem n \<noteq> Inl (ParseError m)"
  by (simp add: parse_class_def parse_features_not_caught)

lemma parse_literals_not_caught: "parse_literals cs enum \<noteq> Inl (ParseError m)"
proof (induction cs arbitrary: enum)
  case Nil
  show ?case by simp
next
  case (Cons child rest)
  show ?case
    using py_int_not_caught[of "get_or child ''value'' ''0''" m] Cons.IH
    by (auto split: sum.splits)
qed

lemma parse_enum_not_caught: "parse_enum elem n \<noteq> Inl (ParseError m)"
  by (simp add: parse_enum_def parse_literals_not_caught)

lemma parse_package_not_caught:
  "parse_package elem filepath st \<noteq> Inl (ParseError m)"
  "parse_package_children cs filepath pkg st \<noteq> Inl (ParseError m)"
proof (induction elem filepath st and cs filepath pkg st
    rule: parse_package_parse_package_children.induct)
  case (1 t attrs cs filepath st)
  then show ?case by simp
next
  case (2 filepath pkg st)
  show ?case by simp
next
  case (3 child rest filepath pkg st)
  show ?case
    using 3 parse_class_not_caught[of child "pkg_name pkg" m]
      parse_enum_not_caught[of child "pkg_name pkg" m]
    by (auto split: sum.splits classifier_kind.splits prod.splits)
qed

lemma parse_root_children_not_caught:
  "parse_root_children cs filepath packages st \<noteq> Inl (ParseError m)"
proof (induction cs arbitrary: packages st)
  case Nil
  show ?case by simp
next
  case (Cons child rest)
  show ?case
    using parse_package_not_caught(1)[of child filepath st m] Cons.IH
    by (auto split: sum.splits prod.splits)
qed

lemma parse_file_caught_iff:
  "(parse_file filepath src st = Inl (ParseError m)) = (src = Malformed m)"
  using parse_package_not_caught(1)[of _ filepath st m]
    parse_root_children_not_caught[of _ filepath "[]" st m]
  by (cases src) (auto simp: parse_file_def et_parse_def split: sum.splits prod.splits)


lemma caught_iff: "caught e = (\<exists>m. e = ParseError m)"
  by (cases e) (simp_all add: caught_def)

lemma parse_file_malformed: "parse_file filepath (Malformed msg) st = Inl (ParseError msg)"
  by (simp add: parse_file_def et_parse_def)

lemma parse_units_malformed:
  "parse_units verbose ((filepath, Malformed msg) # rest) log all_packages st
     = parse_units verbose rest
         ((if verbose then log @ [''Parsing: '' @ filepath] else log) @ [error_line filepath msg])
         all_packages st"
  by (simp add: parse_file_malformed error_line_def)

lemma parse_units_parsed:
  "parse_file filepath src st = Inr (packages, st')
   \<Longrightarrow> parse_units verbose ((filepath, src) # rest) log all_packages st
       = parse_units verbose rest (if verbose then log @ [''Parsing: '' @ filepath] else log)
           (all_packages @ packages) st'"
  by (simp add: Let_def)

lemma parse_units_caught:
  "parse_file filepath src st = Inl (ParseError msg)
   \<Longrightarrow> parse_units verbose ((filepath, src) # rest) log all_packages st
       = parse_units verbose rest
           ((if verbose then log @ [''Parsing: '' @ filepath] else log) @ [error_line filepath msg])
           all_packages st"
  by (simp add: Let_def error_line_def)

lemma parse_units_uncaught:
  "parse_file filepath src st = Inl e \<Longrightarrow> \<not> caught e
   \<Longrightarrow> parse_units verbose ((filepath, src) # rest) log all_packages st
       = (if verbose then log @ [''Parsing: '' @ filepath] else log, Inl e)"
  by (cases e) (simp_all add: Let_def caught_def)

lemma parse_file_cases:
  obtains (parsed) packages st' where "parse_file filepath src st = Inr (packages, st')"
  | (caught) msg where "parse_file filepath src st = Inl (ParseError msg)"
  | (uncaught) e where "parse_file filepath src st = Inl e" "\<not> caught e"
proof (cases "parse_file filepath src st")
  case (Inl e)
  then show ?thesis using caught uncaught by (cases "caught e") (auto simp: caught_iff)
next
  case (Inr res)
  then show ?thesis using parsed by (cases res) auto
qed

lemma parse_units_snd_log:
  "snd (parse_units verbose units log all_packages st)
     = snd (parse_units verbose units log' all_packages st)"
proof (induction units arbitrary: log log' all_packages st)
  case Nil
  then show ?case by simp
next
  case (Cons u units)
  obtain filepath src where u: "u = (filepath, src)" by (cases u)
  show ?case
  proof (cases rule: parse_file_cases[of filepath src st])
    case (parsed packages st')
    show ?thesis unfolding u parse_units_parsed[OF parsed] by (rule Cons.IH)
  next
    case (caught msg)
    show ?thesis unfolding u parse_units_caught[OF caught] by (rule Cons.IH)
  next
    case (uncaught e)
    show ?thesis unfolding u parse_units_uncaught[OF uncaught] by simp
  qed
qed

lemma parse_units_skip_malformed:
  "snd (parse_units verbose units log all_packages st)
     = snd (parse_units verbose (filter (\<lambda>u. \<not> is_malformed (snd u)) units) log all_packages st)"
proof (induction units arbitrary: log all_packages st)
  case Nil
  then show ?case by simp
next
  case (Cons u units)
  obtain filepath src where u: "u = (filepath, src)" by (cases u)
  show ?case
  proof (cases "is_malformed src")
    case True
    then obtain msg where m: "src = Malformed msg"
      by (cases src) (simp_all add: is_malformed_def)
    have "snd (parse_units verbose (u # units) log all_packages st)
        = snd (parse_units verbose units log all_packages st)"
      unfolding u m parse_units_malformed by (rule parse_units_snd_log)
    then show ?thesis
      by (simp add: u True Cons.IH)
  next
    case False
    have f: "filter (\<lambda>u. \<not> is_malformed (snd u)) (u # units)
        = (filepath, src) # filter (\<lambda>u. \<not> is_malformed (snd u)) units"
      by (simp add: u False)
    show ?thesis
    proof (cases rule: parse_file_cases[of filepath src st])
      case (parsed packages st')
      show ?thesis unfolding f unfolding u parse_units_parsed[OF parsed] by (rule Cons.IH)
    next
      case (caught msg)
      have "snd (parse_units verbose units
                   ((if verbose then log @ [''Parsing: '' @ filepath] else log)
                      @ [error_line filepath msg]) all_packages st)
          = snd (parse_units verbose (filter (\<lambda>u. \<not> is_malformed (snd u)) units)
                   ((if verbose then log @ [''Parsing: '' @ filepath] else log)
                      @ [error_line filepath msg]) all_packages st)"
        by (rule Cons.IH)
      then show ?thesis unfolding f unfolding u parse_units_caught[OF caught] .
    next
      case (uncaught e)
      show ?thesis unfolding f unfolding u parse_units_uncaught[OF uncaught] by simp
    qed
  qed
qed

lemma parse_units_log_kept:
  "set log \<subseteq> set (fst (parse_units verbose units log all_packages st))"
proof (induction units arbitrary: log all_packages st)
  case Nil
  then show ?case by simp
next
  case (Cons u units)
  obtain filepath src where u: "u = (filepath, src)" by (cases u)
  let ?log1 = "if verbose then log @ [''Parsing: '' @ filepath] else log"
  have l1: "set log \<subseteq> set ?log1"
    by auto
  have a: "set log \<subseteq> set (fst (parse_units verbose units ?log1 p s))" for p s
    using l1 Cons.IH[of ?log1 p s] by (rule order_trans)
  have l2: "set log \<subseteq> set (?log1 @ [e])" for e
    by auto
  have b: "set log \<subseteq> set (fst (parse_units verbose units (?log1 @ [e]) p s))" for e p s
    using l2 Cons.IH[of "?log1 @ [e]" p s] by (rule order_trans)
  show ?case
  proof (cases rule: parse_file_cases[of filepath src st])
    case (parsed packages st')
    show ?thesis unfolding u parse_units_parsed[OF parsed] by (rule a)
  next
    case (caught msg)
    show ?thesis unfolding u parse_units_caught[OF caught] by (rule b)
  next
    case (uncaught e)
    show ?thesis unfolding u parse_units_uncaught[OF uncaught] fst_conv by (rule l1)
  qed
qed

lemma parse_units_append:
  "parse_units verbose pre log all_packages st = (log', Inr (all', st'))
   \<Longrightarrow> parse_units verbose (pre @ post) log all_packages st
       = parse_units verbose post log' all' st'"
proof (induction pre arbitrary: log all_packages st)
  case Nil
  then show ?case by simp
next
  case (Cons u pre)
  obtain filepath src where u: "u = (filepath, src)" by (cases u)
  show ?case
  proof (cases rule: parse_file_cases[of filepath src st])
    case (parsed packages st1)
    show ?thesis
      using Cons.prems unfolding u append_Cons parse_units_parsed[OF parsed] by (rule Cons.IH)
  next
    case (caught msg)
    show ?thesis
      using Cons.prems unfolding u append_Cons parse_units_caught[OF caught] by (rule Cons.IH)
  next
    case (uncaught e)
    show ?thesis
      using Cons.prems unfolding u append_Cons parse_units_uncaught[OF uncaught] by simp
  qed
qed

lemma parse_units_reached:
  assumes "snd (parse_units verbose pre log all_packages st) = Inr r"
  shows "error_line filepath msg
           \<in> set (fst (parse_units verbose (pre @ (filepath, Malformed msg) # post)
                         log all_packages st))"
proof -
  obtain log' all' st' where
    pre: "parse_units verbose pre log all_packages st = (log', Inr (all', st'))"
    using assms by (cases "parse_units verbose pre log all_packages st"; cases r) auto
  let ?log1 = "(if verbose then log' @ [''Parsing: '' @ filepath] else log')
                 @ [error_line filepath msg]"
  have "set ?log1 \<subseteq> set (fst (parse_units verbose post ?log1 all' st'))"
    by (rule parse_units_log_kept)
  then show ?thesis
    unfolding parse_units_append[OF pre] parse_units_malformed by auto
qed

lemma parse_units_aborts:
  assumes "parse_units verbose pre log all_packages st = (log', Inr (all', st'))"
    and "parse_file filepath src st' = Inl e" and "\<not> caught e"
  shows "parse_units verbose (pre @ (filepath, src) # post) log all_packages st
           = (if verbose then log' @ [''Parsing: '' @ filepath] else log', Inl e)"
  unfolding parse_units_append[OF assms(1)] by (rule parse_units_uncaught[OF assms(2,3)])

lemma parse_units_abort_cause:
  assumes "snd (parse_units verbose units log all_packages st) = Inl e"
  shows "\<exists>pre filepath src post log' all' st'.
           units = pre @ (filepath, src) # post
           \<and> parse_units verbose pre log all_packages st = (log', Inr (all', st'))
           \<and> parse_file filepath src st' = Inl e \<and> \<not> caught e"
  using assms
proof (induction units arbitrary: log all_packages st)
  case Nil
  then show ?case by simp
next
  case (Cons u units)
  obtain fp s where u: "u = (fp, s)" by (cases u)
  let ?log1 = "if verbose then log @ [''Parsing: '' @ fp] else log"
  show ?case
  proof (cases rule: parse_file_cases[of fp s st])
    case (parsed packages st1)
    have "snd (parse_units verbose units ?log1 (all_packages @ packages) st1) = Inl e"
      using Cons.prems unfolding u parse_units_parsed[OF parsed] .
    from Cons.IH[OF this] obtain pre filepath src post log' all' st' where
      r: "units = pre @ (filepath, src) # post"
         "parse_units verbose pre ?log1 (all_packages @ packages) st1 = (log', Inr (all', st'))"
         "parse_file filepath src st' = Inl e" "\<not> caught e"
      by blast
    have "parse_units verbose ((fp, s) # pre) log all_packages st = (log', Inr (all', st'))"
      unfolding parse_units_parsed[OF parsed] by (rule r(2))
    moreover have "u # units = ((fp, s) # pre) @ (filepath, src) # post"
      by (simp add: u r(1))
    ultimately show ?thesis using r(3,4) by blast
  next
    case (caught msg)
    have "snd (parse_units verbose units (?log1 @ [error_line fp msg]) all_packages st) = Inl e"
      using Cons.prems unfolding u parse_units_caught[OF caught] .
    from Cons.IH[OF this] obtain pre filepath src post log' all' st' where
      r: "units = pre @ (filepath, src) # post"
         "parse_units verbose pre (?log1 @ [error_line fp msg]) all_packages st
            = (log', Inr (all', st'))"
         "parse_file filepath src st' = Inl e" "\<not> caught e"
      by blast
    have "parse_units verbose ((fp, s) # pre) log all_packages st = (log', Inr (all', st'))"
      unfolding parse_units_caught[OF caught] by (rule r(2))
    moreover have "u # units = ((fp, s) # pre) @ (filepath, src) # post"
      by (simp add: u r(1))
    ultimately show ?thesis using r(3,4) by blast
  next
    case (uncaught e')
    have e: "e' = e"
      using Cons.prems unfolding u parse_units_uncaught[OF uncaught] by simp
    have "u # units = [] @ (fp, s) # units"
      by (simp add: u)
    moreover have "parse_units verbose [] log all_packages st = (log, Inr (all_packages, st))"
      by simp
    ultimately show ?thesis using uncaught unfolding e by blast
  qed
qed

lemma parse_units_reports:
  assumes "(filepath, Malformed msg) \<in> set units"
    and "snd (parse_units verbose units log all_packages st) = Inr r"
  shows "error_line filepath msg \<in> set (fst (parse_units verbose units log all_packages st))"
proof -
  obtain pre post where sp: "units = pre @ (filepath, Malformed msg) # post"
    using assms(1) by (auto simp: in_set_conv_decomp)
  have "\<exists>r'. snd (parse_units verbose pre log all_packages st) = Inr r'"
  proof (cases "snd (parse_units verbose pre log all_packages st)")
    case (Inl e)
    then obtain log' where "parse_units verbose pre log all_packages st = (log', Inl e)"
      by (cases "parse_units verbose pre log all_packages st") auto
    from parse_units_abort_cause[OF Inl] obtain p fp s q l a t where
      c: "pre = p @ (fp, s) # q" "parse_units verbose p log all_packages st = (l, Inr (a, t))"
         "parse_file fp s t = Inl e" "\<not> caught e"
      by blast
    have "units = p @ (fp, s) # (q @ (filepath, Malformed msg) # post)"
      by (simp add: sp c(1))
    then have "snd (parse_units verbose units log all_packages st) = Inl e"
      using parse_units_aborts[OF c(2,3,4)] by simp
    then show ?thesis using assms(2) by simp
  next
    case (Inr r')
    then show ?thesis by blast
  qed
  then obtain r' where "snd (parse_units verbose pre log all_packages st) = Inr r'" ..
  from parse_units_reached[OF this] show ?thesis unfolding sp .
qed

text \<open>
  C3, as the claim states it, fails: the loop recovers from \<open>ET.ParseError\<close> only. A
  well-formed document whose attribute has the upper bound \<open>many\<close> raises \<open>ValueError\<close>
  in \<open>int(...)\<close>, which nothing catches: the run ends there and returns nothing, also not
  the package of the unit parsed before it, and the unit behind it that is not
  well-formed is never reported. The same unit alone aborts its batch as well.
\<close>

theorem unit_with_bad_bound_aborts_batch_counterexample:
  "(''broken.ecore'', Malformed ''mismatched tag: line 3, column 2'') \<in> set batch_with_aborting_unit
   \<and> convert_front batch_with_aborting_unit = ([], Inl (ValueError ''many''))
   \<and> error_line ''broken.ecore'' ''mismatched tag: line 3, column 2''
        \<notin> set (fst (convert_front batch_with_aborting_unit))
   \<and> convert_front [(''limits.ecore'', Document bounds_document)] = ([], Inl (ValueError ''many''))"
proof -
  have m: "(''broken.ecore'', Malformed ''mismatched tag: line 3, column 2'')
             \<in> set batch_with_aborting_unit"
    by (simp add: batch_with_aborting_unit_def)
  have "(case convert_front batch_with_aborting_unit of
           (l, Inl e) \<Rightarrow> l = [] \<and> e = ValueError ''many''
         | (l, Inr x) \<Rightarrow> False)"
    by code_simp
  then have r: "convert_front batch_with_aborting_unit = ([], Inl (ValueError ''many''))"
    by (auto split: prod.splits sum.splits)
  have "(case convert_front [(''limits.ecore'', Document bounds_document)] of
           (l, Inl e) \<Rightarrow> l = [] \<and> e = ValueError ''many''
         | (l, Inr x) \<Rightarrow> False)"
    by code_simp
  then have s: "convert_front [(''limits.ecore'', Document bounds_document)]
                  = ([], Inl (ValueError ''many''))"
    by (auto split: prod.splits sum.splits)
  show ?thesis using m s by (simp add: r)
qed

text \<open>
  C3, amended. The units that the loop skips are exactly those that are not
  well-formed XML: \<open>parse_file\<close> raises \<open>ParseError\<close> on them and on no other unit. Such
  a unit is reported on \<open>stderr\<close> and skipped: the loop goes on with the remaining
  units, with the packages and the class store unchanged, so no package is emitted for
  it. The outcome of a batch (its packages, or the exception that ends it) is the
  outcome of the batch without its malformed units, so no malformed unit aborts the
  run. A malformed unit is reported whenever the loop reaches it, and so every
  malformed unit is reported when the run returns. A unit that raises any other
  exception ends the run at that unit with that exception: no packages are returned,
  and the units behind it are neither parsed nor reported. A run ends with an
  exception only in this way.
\<close>

theorem malformed_units_skipped_other_errors_abort:
  "parse_units verbose ((filepath, Malformed msg) # rest) log all_packages st
     = parse_units verbose rest
         ((if verbose then log @ [''Parsing: '' @ filepath] else log) @ [error_line filepath msg])
         all_packages st
   \<and> (parse_file filepath src st = Inl (ParseError msg)) = (src = Malformed msg)
   \<and> snd (parse_units verbose units log all_packages st)
     = snd (parse_units verbose (filter (\<lambda>u. \<not> is_malformed (snd u)) units) log all_packages st)
   \<and> (snd (parse_units verbose pre log all_packages st) = Inr r
      \<longrightarrow> error_line fp m
            \<in> set (fst (parse_units verbose (pre @ (fp, Malformed m) # post) log all_packages st)))
   \<and> ((fp, Malformed m) \<in> set units
        \<and> snd (parse_units verbose units log all_packages st) = Inr r
      \<longrightarrow> error_line fp m \<in> set (fst (parse_units verbose units log all_packages st)))
   \<and> (parse_units verbose pre log all_packages st = (log', Inr (all', st'))
        \<and> parse_file fp src' st' = Inl e \<and> \<not> caught e
      \<longrightarrow> parse_units verbose (pre @ (fp, src') # post) log all_packages st
            = (if verbose then log' @ [''Parsing: '' @ fp] else log', Inl e))
   \<and> (snd (parse_units verbose units log all_packages st) = Inl e)
     = (\<exists>pre filepath src post log' all' st'.
          units = pre @ (filepath, src) # post
          \<and> parse_units verbose pre log all_packages st = (log', Inr (all', st'))
          \<and> parse_file filepath src st' = Inl e \<and> \<not> caught e)"
proof -
  have cause: "(snd (parse_units verbose units log all_packages st) = Inl e)
     = (\<exists>pre filepath src post log' all' st'.
          units = pre @ (filepath, src) # post
          \<and> parse_units verbose pre log all_packages st = (log', Inr (all', st'))
          \<and> parse_file filepath src st' = Inl e \<and> \<not> caught e)"
    (is "?l = ?r")
  proof
    assume ?l
    then show ?r by (rule parse_units_abort_cause)
  next
    assume ?r
    then obtain pre filepath src post log' all' st' where
      c: "units = pre @ (filepath, src) # post"
         "parse_units verbose pre log all_packages st = (log', Inr (all', st'))"
         "parse_file filepath src st' = Inl e" "\<not> caught e"
      by blast
    show ?l unfolding c(1) parse_units_aborts[OF c(2,3,4)] by simp
  qed
  show ?thesis
    using parse_units_malformed[of verbose filepath msg rest log all_packages st]
      parse_file_caught_iff[of filepath src st msg]
      parse_units_skip_malformed[of verbose units log all_packages st]
      parse_units_reached[of verbose pre log all_packages st r fp m post]
      parse_units_reports[of fp m units verbose log all_packages st r]
      parse_units_aborts[of verbose pre log all_packages st log' all' st' fp src' e post]
      cause
    by blast
qed

theorem malformed_units_skipped_other_errors_abort_witness:
  "(''broken.ecore'', Malformed ''mismatched tag: line 3, column 2'') \<in> set batch_with_bad_unit
   \<and> (case snd (parse_units False batch_with_bad_unit [] [] (empty_store, 0)) of
         Inl e \<Rightarrow> False
       | Inr (packages, st) \<Rightarrow> map pkg_name packages = [''shapes'', ''colors''])
   \<and> error_line ''broken.ecore'' ''mismatched tag: line 3, column 2''
        \<in> set (fst (parse_units False batch_with_bad_unit [] [] (empty_store, 0)))
   \<and> error_line ''broken.ecore'' ''mismatched tag: line 3, column 2''
        \<in> set (fst (parse_units False
                      ([(''shapes.ecore'', Document good_document)]
                         @ (''broken.ecore'', Malformed ''mismatched tag: line 3, column 2'')
                         # [(''limits.ecore'', Document bounds_document)])
                      [] [] (empty_store, 0)))
   \<and> parse_units False batch_with_aborting_unit [] [] (empty_store, 0)
       = ([], Inl (ValueError ''many''))"
proof -
  let ?run = "parse_units False batch_with_bad_unit [] [] (empty_store, 0)"
  let ?pre = "[(''shapes.ecore'', Document good_document)]"
  let ?msg = "''mismatched tag: line 3, column 2''"
  let ?post = "[(''broken.ecore'', Malformed ?msg), (''colors.ecore'', Document other_document)]"
  let ?limits = "(''limits.ecore'', Document bounds_document)"
  define first_run where "first_run = parse_units False ?pre [] [] (empty_store, 0)"
  have m: "(''broken.ecore'', Malformed ?msg) \<in> set batch_with_bad_unit"
    by (simp add: batch_with_bad_unit_def)
  have p: "(case snd ?run of
              Inl e \<Rightarrow> False
            | Inr (packages, st) \<Rightarrow> map pkg_name packages = [''shapes'', ''colors''])"
    by code_simp
  then obtain r where r: "snd ?run = Inr r"
    by (cases "snd ?run") auto
  have q: "(case first_run of
              (l, Inl e) \<Rightarrow> False
            | (l, Inr (a, s)) \<Rightarrow>
                l = [] \<and> (case parse_file ''limits.ecore'' (Document bounds_document) s of
                            Inl e \<Rightarrow> e = ValueError ''many''
                          | Inr x \<Rightarrow> False))"
    unfolding first_run_def by code_simp
  obtain l res where fr: "first_run = (l, res)"
    by (cases first_run)
  have "\<exists>x. res = Inr x"
  proof (cases res)
    case (Inl e)
    then show ?thesis using q unfolding fr by simp
  next
    case (Inr x)
    then show ?thesis by (rule exI)
  qed
  then obtain x where "res = Inr x" ..
  moreover obtain a s where "x = (a, s)"
    by (cases x)
  ultimately have res: "res = Inr (a, s)"
    by simp
  have q': "l = [] \<and> (case parse_file ''limits.ecore'' (Document bounds_document) s of
                        Inl e \<Rightarrow> e = ValueError ''many''
                      | Inr x \<Rightarrow> False)"
    using q unfolding fr res by (simp only: prod.case sum.case)
  have f: "parse_file ''limits.ecore'' (Document bounds_document) s = Inl (ValueError ''many'')"
    using q'[THEN conjunct2]
    by (cases "parse_file ''limits.ecore'' (Document bounds_document) s") simp_all
  have pre: "parse_units False ?pre [] [] (empty_store, 0) = ([], Inr (a, s))"
    using fr unfolding first_run_def res q'[THEN conjunct1] .
  have nc: "\<not> caught (ValueError ''many'')"
    by (simp add: caught_def)
  have dec: "batch_with_aborting_unit = ?pre @ ?limits # ?post"
    by (simp add: batch_with_aborting_unit_def)
  have pre_r: "snd (parse_units False ?pre [] [] (empty_store, 0)) = Inr (a, s)"
    by (simp only: pre snd_conv)
  note reports = malformed_units_skipped_other_errors_abort
      [where verbose = False and log = "[]" and all_packages = "[]" and st = "(empty_store, 0)"
         and fp = "''broken.ecore''" and m = ?msg and units = batch_with_bad_unit and r = r,
       THEN conjunct2, THEN conjunct2, THEN conjunct2, THEN conjunct2, THEN conjunct1,
       rule_format]
  have reported: "error_line ''broken.ecore'' ?msg \<in> set (fst ?run)"
    by (rule reports) (rule conjI[OF m r])
  note reaches = malformed_units_skipped_other_errors_abort
      [where verbose = False and log = "[]" and all_packages = "[]" and st = "(empty_store, 0)"
         and fp = "''broken.ecore''" and m = ?msg and pre = ?pre and r = "(a, s)"
         and post = "[?limits]",
       THEN conjunct2, THEN conjunct2, THEN conjunct2, THEN conjunct1, rule_format]
  have reached: "error_line ''broken.ecore'' ?msg
        \<in> set (fst (parse_units False (?pre @ (''broken.ecore'', Malformed ?msg) # [?limits])
                      [] [] (empty_store, 0)))"
    by (rule reaches) (rule pre_r)
  note aborts = malformed_units_skipped_other_errors_abort
      [where verbose = False and log = "[]" and all_packages = "[]" and st = "(empty_store, 0)"
         and pre = ?pre and log' = "[]" and all' = a and st' = s
         and fp = "''limits.ecore''" and src' = "Document bounds_document"
         and e = "ValueError ''many''" and post = ?post,
       THEN conjunct2, THEN conjunct2, THEN conjunct2, THEN conjunct2, THEN conjunct2,
       THEN conjunct1, rule_format]
  have "parse_units False (?pre @ ?limits # ?post) [] [] (empty_store, 0)
          = (if False then [] @ [''Parsing: '' @ ''limits.ecore''] else [], Inl (ValueError ''many''))"
    by (rule aborts) (rule conjI[OF pre conjI[OF f nc]])
  then have aborted: "parse_units False batch_with_aborting_unit [] [] (empty_store, 0)
       = ([], Inl (ValueError ''many''))"
    unfolding dec by (simp only: if_False)
  show ?thesis
    by (rule conjI[OF m conjI[OF p conjI[OF reported conjI[OF reached aborted]]]])
qed

section \<open>Properties of the annotation collector\<close>

lemma fold_concat_map: "fold f (concat (map g xs)) c = fold (\<lambda>x. fold f (g x)) xs c"
  by (induction xs arbitrary: c) simp_all

lemma register_annotation_walk:
  "register_annotation ann c = fold register (annotation_details ann) c"
  by (simp add: register_annotation_def annotation_details_def fold_map comp_def register_def)

lemma fold_register_annotation:
  "fold register_annotation anns c = fold register (concat (map annotation_details anns)) c"
proof -
  have "register_annotation = (\<lambda>ann. fold register (annotation_details ann))"
    by (rule ext)+ (rule register_annotation_walk)
  then show ?thesis by (simp add: fold_concat_map)
qed

lemma fold_nested_annotations:
  "fold (\<lambda>x. fold register_annotation (g x)) xs c
     = fold register (concat (map (\<lambda>x. concat (map annotation_details (g x))) xs)) c"
proof -
  have "(\<lambda>x. fold register_annotation (g x)) = (\<lambda>x. fold register (concat (map annotation_details (g x))))"
    by (rule ext)+ (rule fold_register_annotation)
  then show ?thesis by (simp add: fold_concat_map)
qed

lemma scan_class_walk: "scan_class h a c = fold register (class_details h a) c"
  by (simp add: scan_class_def class_details_def fold_nested_annotations fold_register_annotation)

lemma fold_scan_class: "fold (scan_class h) cs c = fold register (concat (map (class_details h) cs)) c"
proof -
  have "scan_class h = (\<lambda>a. fold register (class_details h a))"
    by (rule ext)+ (rule scan_class_walk)
  then show ?thesis by (simp add: fold_concat_map)
qed

lemma fold_cong_set:
  assumes "\<And>x c. x \<in> set xs \<Longrightarrow> f x c = g x c"
  shows "fold f xs c = fold g xs c"
  using assms by (induction xs arbitrary: c) simp_all

lemma scan_package_walk: "scan_package h pkg c = fold register (package_details h pkg) c"
proof (induction h pkg c rule: scan_package.induct)
  case (1 h n u p cs es ds subs f an c)
  have subs: "fold (scan_package h) subs c' = fold register (concat (map (package_details h) subs)) c'" for c'
  proof -
    have "fold (scan_package h) subs c' = fold (\<lambda>s. fold register (package_details h s)) subs c'"
      by (rule fold_cong_set) (rule 1)
    then show ?thesis by (simp add: fold_concat_map)
  qed
  show ?case
    by (simp add: subs fold_nested_annotations fold_scan_class fold_register_annotation)
qed

lemma scan_walk: "scan h pkgs c = fold register (detail_walk h pkgs) c"
proof -
  have "scan_package h = (\<lambda>pkg. fold register (package_details h pkg))"
    by (rule ext)+ (rule scan_package_walk)
  then show ?thesis by (simp add: scan_def detail_walk_def fold_concat_map)
qed


lemma add_key_in: "k \<in> set ks \<Longrightarrow> add_key k ks = ks"
  by (simp add: add_key_def)

lemma add_key_notin: "k \<notin> set ks \<Longrightarrow> add_key k ks = ks @ [k]"
  by (simp add: add_key_def)

lemma remdups_skip: "l \<in> set ys \<Longrightarrow> remdups (xs @ l # ys) = remdups (xs @ ys)"
  by (induction xs) auto

lemma fold_add_key: "fold add_key ls ks = first_seen (ks @ ls)" if "distinct ks"
  using that
proof (induction ls arbitrary: ks)
  case Nil
  then show ?case by (simp add: first_seen_def distinct_remdups_id)
next
  case (Cons l ls)
  show ?case
  proof (cases "l \<in> set ks")
    case True
    then have "fold add_key (l # ls) ks = first_seen (ks @ ls)"
      using Cons by (simp add: add_key_in)
    also have "\<dots> = first_seen (ks @ l # ls)"
      using True by (simp add: first_seen_def remdups_skip)
    finally show ?thesis .
  next
    case False
    then have "fold add_key (l # ls) ks = first_seen ((ks @ [l]) @ ls)"
      using Cons.prems by (simp add: add_key_notin Cons.IH)
    then show ?thesis by simp
  qed
qed

lemma map_of_None_keys: "map_of kvs k = None \<longleftrightarrow> k \<notin> set (map fst kvs)"
  by (simp add: map_of_eq_None_iff)

lemma keys_register:
  "map fst (options (register t c)) = add_key (fst t, fst (snd (snd t))) (map fst (options c))"
  by (simp add: register_def register_detail_def Let_def add_key_def map_of_None_keys)

lemma keys_fold_register:
  "map fst (options (fold register ts c))
     = fold add_key (map (\<lambda>(short, full, kv). (short, fst kv)) ts) (map fst (options c))"
proof (induction ts arbitrary: c)
  case Nil
  then show ?case by simp
next
  case (Cons t ts)
  show ?case
    by (simp add: Cons keys_register split: prod.splits)
qed

lemma scan_keys:
  "map fst (options (scan h pkgs new_collector)) = first_seen (walk_keys h pkgs)"
  by (simp add: scan_walk keys_fold_register walk_keys_def fold_add_key new_collector_def)

lemma numbered_new: "numbered new_collector"
  by (simp add: numbered_def new_collector_def)

lemma numbered_register: "numbered c \<Longrightarrow> numbered (register t c)"
  by (simp add: numbered_def register_def register_detail_def Let_def)

lemma numbered_fold: "numbered c \<Longrightarrow> numbered (fold register ts c)"
  by (induction ts arbitrary: c) (simp_all add: numbered_register)

lemma numbered_scan: "numbered (scan h pkgs new_collector)"
  by (simp add: scan_walk numbered_fold numbered_new)

lemma finalize_numbers:
  "map (\<lambda>lo. (fst lo, field_number (snd lo))) (options (finalize c))
     = map (\<lambda>lo. (fst lo, field_number (snd lo))) (options c)"
  by (simp add: finalize_def comp_def split: prod.splits)

lemma sorted_consecutive: "sorted_wrt (<) (map (\<lambda>i. (b::int) + int i) [0..<n])"
  by (simp add: sorted_wrt_map sorted_wrt_upt[unfolded sorted_wrt_iff_nth_less] sorted_wrt_iff_nth_less)

text \<open>
  C8. After the collection scan the field numbers of the registered options, read in
  registration order, are 50000, 50001, ... without a gap, so they start at the base
  constant and increase strictly; the registration order is the order in which the
  pairs (shortened source, key) are first met on the depth-first walk of the packages;
  \<open>_finalize\<close> changes neither the pairs, nor their order, nor any field number, nor
  the next free number.
\<close>

theorem field_numbers_first_seen_from_base:
  "map (\<lambda>lo. field_number (snd lo)) (options (scan h pkgs new_collector))
     = map (\<lambda>i. 50000 + int i) [0..<length (options (scan h pkgs new_collector))]
   \<and> sorted_wrt (<) (map (\<lambda>lo. field_number (snd lo)) (options (scan h pkgs new_collector)))
   \<and> map fst (options (scan h pkgs new_collector)) = first_seen (walk_keys h pkgs)
   \<and> map (\<lambda>lo. (fst lo, field_number (snd lo))) (options (finalize c))
       = map (\<lambda>lo. (fst lo, field_number (snd lo))) (options c)
   \<and> next_field_number (finalize c) = next_field_number c"
proof (intro conjI)
  show n: "map (\<lambda>lo. field_number (snd lo)) (options (scan h pkgs new_collector))
     = map (\<lambda>i. 50000 + int i) [0..<length (options (scan h pkgs new_collector))]"
    using numbered_scan[of h pkgs] by (simp add: numbered_def EXTENSION_FIELD_START_def)
  show "sorted_wrt (<) (map (\<lambda>lo. field_number (snd lo)) (options (scan h pkgs new_collector)))"
    unfolding n by (rule sorted_consecutive)
  show "map fst (options (scan h pkgs new_collector)) = first_seen (walk_keys h pkgs)"
    by (rule scan_keys)
  show "map (\<lambda>lo. (fst lo, field_number (snd lo))) (options (finalize c))
       = map (\<lambda>lo. (fst lo, field_number (snd lo))) (options c)"
    by (rule finalize_numbers)
  show "next_field_number (finalize c) = next_field_number c"
    by (simp add: finalize_def)
qed


subsection \<open>Shortened sources as prefixes of field names\<close>

lemma lower_not_upper: "list_all (\<lambda>c. c \<notin> set upper_letters) (lower_letters @ digit_chars @ ''_'')"
  by code_simp

lemma plain_not_upper: "plain_char c \<Longrightarrow> \<not> is_upper c"
  using lower_not_upper
  by (auto simp: plain_char_def is_upper_def is_lower_def is_digit_def list_all_iff)

lemma underscore_not_alnum: "\<not> is_lower CHR ''_'' \<and> \<not> is_digit CHR ''_'' \<and> \<not> is_upper CHR ''_''"
  by code_simp

lemma lower_char_id: "\<not> is_upper c \<Longrightarrow> lower_char c = c"
proof -
  assume "\<not> is_upper c"
  then have "c \<notin> set (map fst (zip upper_letters lower_letters))"
    by (simp add: is_upper_def upper_letters_def lower_letters_def)
  then have "map_of (zip upper_letters lower_letters) c = None"
    by (simp only: map_of_eq_None_iff set_map) simp
  then show ?thesis by (simp add: lower_char_def)
qed

lemma lower_char_upper: "list_all (\<lambda>c. is_lower (lower_char c)) upper_letters"
  by code_simp

lemma lower_char_plain:
  assumes "is_lower c \<or> is_upper c \<or> is_digit c \<or> c = CHR ''_''"
  shows "plain_char (lower_char c)"
proof (cases "is_upper c")
  case True
  then have "is_lower (lower_char c)"
    using lower_char_upper by (simp add: is_upper_def list_all_iff)
  then show ?thesis by (simp add: plain_char_def)
next
  case False
  then show ?thesis using assms by (simp add: lower_char_id plain_char_def)
qed

lemma sub_lower_upper_step:
  "\<not> is_upper b \<Longrightarrow> sub_lower_upper (a # b # r) = a # sub_lower_upper (b # r)"
  by simp

lemma sub_lower_upper_keep:
  assumes "list_all (\<lambda>c. \<not> is_upper c) s" and "\<not> is_upper x"
  shows "sub_lower_upper (s @ x # t) = s @ sub_lower_upper (x # t)"
  using assms
proof (induction s)
  case Nil
  then show ?case by simp
next
  case (Cons a s)
  obtain b r where br: "s @ x # t = b # r" and b: "\<not> is_upper b"
    using Cons.prems by (cases s) auto
  have "sub_lower_upper ((a # s) @ x # t) = a # sub_lower_upper (s @ x # t)"
    using sub_lower_upper_step[OF b, of a r] br by simp
  then show ?case using Cons by simp
qed

lemma sub_lower_upper_underscore:
  "sub_lower_upper (CHR ''_'' # t) = CHR ''_'' # sub_lower_upper t"
  using underscore_not_alnum by (cases t) simp_all

lemma sub_upper_run_step: "\<not> is_upper a \<Longrightarrow> sub_upper_run (a # t) = a # sub_upper_run t"
proof (cases t)
  case Nil
  then show ?thesis by simp
next
  case (Cons b r)
  assume "\<not> is_upper a"
  then show ?thesis using Cons by (cases r) simp_all
qed

lemma sub_upper_run_keep:
  "list_all (\<lambda>c. \<not> is_upper c) s \<Longrightarrow> sub_upper_run (s @ t) = s @ sub_upper_run t"
  by (induction s) (simp_all add: sub_upper_run_step)

lemma lower_keep: "list_all (\<lambda>c. \<not> is_upper c) s \<Longrightarrow> lower (s @ t) = s @ lower t"
  by (simp add: lower_def list_all_iff lower_char_id map_idI)

lemma replace_others_keep:
  "list_all keep s \<Longrightarrow> replace_others keep (s @ t) = s @ replace_others keep t"
  by (simp add: replace_others_def list_all_iff map_idI)

lemma collapse_keep:
  assumes "no_double s" and "s \<noteq> []" and "last s \<noteq> CHR ''_''"
  shows "collapse_underscores (s @ CHR ''_'' # t) = s @ collapse_underscores (CHR ''_'' # t)"
  using assms
proof (induction s rule: no_double.induct)
  case (1 a b r)
  then show ?case by auto
qed simp_all

lemma strip_keep:
  assumes "s \<noteq> []" and "hd s \<noteq> CHR ''_''" and "last s \<noteq> CHR ''_''"
  shows "prefix s (strip_underscores (s @ u))"
proof -
  let ?p = "\<lambda>c. c = CHR ''_''"
  have front: "dropWhile ?p (s @ u) = s @ u"
    using assms(1,2) by (cases s) simp_all
  have rear: "dropWhile ?p (rev s) = rev s"
    using assms(1,3) by (cases "rev s") (simp_all add: last_rev[symmetric] hd_rev)
  have "dropWhile ?p (rev u @ rev s)
      = (if \<forall>x \<in> set (rev u). ?p x then rev s else dropWhile ?p (rev u) @ rev s)"
    by (simp add: dropWhile_append rear)
  then have "strip_underscores (s @ u)
      = (if \<forall>x \<in> set (rev u). ?p x then s else s @ rev (dropWhile ?p (rev u)))"
    by (simp add: strip_underscores_def strip_chars_def front)
  then show ?thesis by simp
qed

lemma to_option_field_name_has_prefix:
  assumes "short_ok s"
  shows "prefix s (to_option_field_name s k)"
proof -
  have ne: "s \<noteq> []" and pl: "list_all plain_char s" and h: "hd s \<noteq> CHR ''_''"
    and l: "last s \<noteq> CHR ''_''" and nd: "no_double s"
    using assms by (simp_all add: short_ok_def)
  have nu: "list_all (\<lambda>c. \<not> is_upper c) s"
    using pl plain_not_upper by (simp add: list_all_iff)
  have keep: "list_all (\<lambda>c. is_lower c \<or> is_digit c \<or> c = CHR ''_'') s"
    using pl by (simp add: plain_char_def[abs_def])
  let ?keep = "\<lambda>c. is_lower c \<or> is_digit c \<or> c = CHR ''_''"
  have a: "sub_lower_upper (s @ CHR ''_'' # k) = s @ CHR ''_'' # sub_lower_upper k"
    using sub_lower_upper_keep[OF nu, of "CHR ''_''" k] underscore_not_alnum
    by (simp add: sub_lower_upper_underscore)
  have b: "sub_upper_run (s @ CHR ''_'' # t) = s @ CHR ''_'' # sub_upper_run t" for t
    using sub_upper_run_keep[OF nu, of "CHR ''_'' # t"] underscore_not_alnum
    by (simp add: sub_upper_run_step)
  have c: "lower (s @ CHR ''_'' # t) = s @ CHR ''_'' # lower t" for t
    using lower_keep[OF nu, of "CHR ''_'' # t"] underscore_not_alnum
    by (simp add: lower_def lower_char_id)
  have d: "replace_others ?keep (s @ CHR ''_'' # t) = s @ CHR ''_'' # replace_others ?keep t" for t
    using replace_others_keep[OF keep, of "CHR ''_'' # t"] by (simp add: replace_others_def)
  have e: "collapse_underscores (s @ CHR ''_'' # t) = s @ collapse_underscores (CHR ''_'' # t)" for t
    by (rule collapse_keep[OF nd ne l])
  have "to_option_field_name s k
      = strip_underscores (s @ collapse_underscores
           (CHR ''_'' # replace_others ?keep (lower (sub_upper_run (sub_lower_upper k)))))"
    using ne by (simp add: to_option_field_name_def Let_def a b c d e)
  then show ?thesis
    using strip_keep[OF ne h l] by simp
qed


lemma collapse_hd: "collapse_underscores (b # r) = b # tl (collapse_underscores (b # r))"
proof (induction r arbitrary: b)
  case Nil
  then show ?case by simp
next
  case (Cons c r)
  show ?case using Cons[of c] by auto
qed

lemma no_double_collapse: "no_double (collapse_underscores s)"
proof (induction s rule: collapse_underscores.induct)
  case (1 a b r)
  obtain y where y: "collapse_underscores (b # r) = b # y"
    using collapse_hd[of b r] by blast
  show ?case using 1 y by auto
qed simp_all

lemma set_collapse: "set (collapse_underscores s) \<subseteq> set s"
  by (induction s rule: collapse_underscores.induct) auto

lemma no_double_tl: "no_double (a # t) \<Longrightarrow> no_double t"
  by (cases t) simp_all

lemma no_double_suffix: "no_double (xs @ ys) \<Longrightarrow> no_double ys"
  by (induction xs) (auto dest: no_double_tl)

lemma no_double_prefix: "no_double (xs @ ys) \<Longrightarrow> no_double xs"
  by (induction xs rule: no_double.induct) simp_all

lemma rstrip_split: "z = rev (dropWhile p (rev z)) @ rev (takeWhile p (rev z))"
proof -
  have "z = rev (rev z)" by simp
  also have "\<dots> = rev (takeWhile p (rev z) @ dropWhile p (rev z))"
    by (simp only: takeWhile_dropWhile_id)
  also have "\<dots> = rev (dropWhile p (rev z)) @ rev (takeWhile p (rev z))"
    by (simp only: rev_append)
  finally show ?thesis .
qed

lemma strip_chars_infix: "\<exists>pre suf. s = pre @ strip_chars p s @ suf"
proof -
  have "s = takeWhile p s @ dropWhile p s" by simp
  also have "dropWhile p s = strip_chars p s @ rev (takeWhile p (rev (dropWhile p s)))"
    unfolding strip_chars_def by (rule rstrip_split)
  finally show ?thesis by blast
qed

lemma last_dropWhile: "dropWhile p xs \<noteq> [] \<Longrightarrow> last (dropWhile p xs) = last xs"
proof -
  assume ne: "dropWhile p xs \<noteq> []"
  have "last xs = last (takeWhile p xs @ dropWhile p xs)" by simp
  also have "\<dots> = last (dropWhile p xs)" using ne by (rule last_appendR)
  finally show ?thesis by simp
qed

lemma strip_chars_ends:
  assumes "strip_chars p s \<noteq> []"
  shows "\<not> p (hd (strip_chars p s)) \<and> \<not> p (last (strip_chars p s))"
proof -
  let ?z = "dropWhile p s"
  let ?w = "dropWhile p (rev ?z)"
  have w: "?w \<noteq> []" using assms by (simp add: strip_chars_def)
  have z: "?z \<noteq> []"
  proof
    assume a: "?z = []"
    have "?w = dropWhile p (rev [])" by (simp only: a)
    then show False using w by (simp only: rev.simps dropWhile.simps)
  qed
  have "\<not> p (hd ?w)" using w by (rule hd_dropWhile)
  then have l: "\<not> p (last (rev ?w))" using w by (simp add: last_rev)
  have "last ?w = last (rev ?z)" using w by (rule last_dropWhile)
  also have "\<dots> = hd ?z" using z by (simp add: last_rev)
  finally have "hd (rev ?w) = hd ?z" using w by (simp add: hd_rev)
  moreover have "\<not> p (hd ?z)" using z by (rule hd_dropWhile)
  ultimately have "\<not> p (hd (rev ?w))" by simp
  then show ?thesis using l by (simp add: strip_chars_def)
qed

lemma set_strip_chars: "set (strip_chars p s) \<subseteq> set s"
proof -
  obtain pre suf where "s = pre @ strip_chars p s @ suf"
    using strip_chars_infix by blast
  then have "set s = set pre \<union> set (strip_chars p s) \<union> set suf"
    by (metis set_append Un_assoc)
  then show ?thesis by blast
qed

lemma no_double_strip: "no_double s \<Longrightarrow> no_double (strip_chars p s)"
proof -
  assume nd: "no_double s"
  obtain pre suf where "s = pre @ strip_chars p s @ suf"
    using strip_chars_infix by blast
  then have "no_double (pre @ strip_chars p s @ suf)" using nd by simp
  then have "no_double (strip_chars p s @ suf)" by (rule no_double_suffix)
  then show ?thesis by (rule no_double_prefix)
qed

lemma short_ok_unknown: "short_ok ''unknown''"
  by code_simp

lemma short_ok_shorten_source: "short_ok (shorten_source src)"
proof (cases "src = []")
  case True
  then show ?thesis by (simp add: shorten_source_def short_ok_unknown)
next
  case False
  define last1 where
    "last1 = (if contains ''/'' (rstrip_char CHR ''/'' src)
              then last (split_on CHR ''/'' (rstrip_char CHR ''/'' src))
              else rstrip_char CHR ''/'' src)"
  define last2 where
    "last2 = lower (replace_others (\<lambda>c. is_lower c \<or> is_upper c \<or> is_digit c \<or> c = CHR ''_'') last1)"
  define last3 where "last3 = strip_underscores (collapse_underscores last2)"
  have eq: "shorten_source src = (if last3 = [] then ''unknown'' else last3)"
    using False by (simp add: shorten_source_def Let_def last1_def last2_def last3_def)
  show ?thesis
  proof (cases "last3 = []")
    case True
    then show ?thesis by (simp add: eq short_ok_unknown)
  next
    case ne: False
    have p2: "list_all plain_char last2"
      unfolding last2_def lower_def replace_others_def
      by (auto simp: list_all_iff intro!: lower_char_plain)
    have "set last3 \<subseteq> set last2"
      unfolding last3_def strip_underscores_def
      using set_strip_chars set_collapse by (rule order_trans)
    then have p3: "list_all plain_char last3"
      using p2 by (auto simp: list_all_iff)
    have nd: "no_double last3"
      unfolding last3_def strip_underscores_def
      by (rule no_double_strip) (rule no_double_collapse)
    have ends: "hd last3 \<noteq> CHR ''_'' \<and> last last3 \<noteq> CHR ''_''"
      using strip_chars_ends[of "\<lambda>c. c = CHR ''_''" "collapse_underscores last2"] ne
      by (simp add: last3_def strip_underscores_def)
    show ?thesis
      using ne p3 nd ends by (simp add: eq short_ok_def)
  qed
qed

subsection \<open>Field names\<close>

lemma shorten_source_nonempty: "shorten_source src \<noteq> []"
  by (simp add: shorten_source_def Let_def)

lemma set_first_seen: "set (first_seen xs) = set xs"
  by (simp add: first_seen_def)

lemma walk_keys_short: "(s, k) \<in> set (walk_keys h pkgs) \<Longrightarrow> short_ok s"
proof -
  have ann: "t \<in> set (annotation_details ann) \<Longrightarrow> short_ok (fst t)" for t ann
    by (auto simp: annotation_details_def short_ok_shorten_source)
  have cls: "t \<in> set (class_details h' a) \<Longrightarrow> short_ok (fst t)" for t a h'
    by (auto simp: class_details_def dest!: ann)
  have pkg: "t \<in> set (package_details h' pkg) \<Longrightarrow> short_ok (fst t)" for t pkg h'
  proof (induction h' pkg arbitrary: t rule: package_details.induct)
    case (1 h n u p cs es ds subs f an)
    from "1.prems" consider
        (own) "t \<in> set (concat (map annotation_details an))"
      | (classes) "t \<in> set (concat (map (class_details h) cs))"
      | (enums) "t \<in> set (concat (map (\<lambda>e. concat (map annotation_details (enum_annotations e))) es))"
      | (subs) "\<exists>s \<in> set subs. t \<in> set (package_details h s)"
      unfolding package_details.simps set_append Un_iff by (simp only: set_concat set_map) blast
    then show ?case
    proof cases
      case own
      then show ?thesis by (auto dest!: ann)
    next
      case classes
      then show ?thesis by (auto dest!: cls)
    next
      case enums
      then show ?thesis by (auto dest!: ann)
    next
      case subs
      then show ?thesis using "1.IH" by blast
    qed
  qed
  assume "(s, k) \<in> set (walk_keys h pkgs)"
  then obtain t where "t \<in> set (detail_walk h pkgs)" "s = fst t"
    by (auto simp: walk_keys_def)
  then show ?thesis by (auto simp: detail_walk_def dest!: pkg)
qed

lemma several_sources:
  assumes "(s, k) \<in> set (map fst opts)"
  shows "1 < length (key_to_sources opts k)
         \<longleftrightarrow> (\<exists>s'. s' \<noteq> s \<and> (s', k) \<in> set (map fst opts))"
proof -
  let ?S = "set (map fst (filter (\<lambda>lookup. snd lookup = k) (map fst opts)))"
  have S: "?S = {s'. (s', k) \<in> set (map fst opts)}"
    by force
  have fin: "finite ?S" by simp
  have len: "length (key_to_sources opts k) = card ?S"
    by (simp only: key_to_sources_def length_remdups_card_conv)
  have sin: "s \<in> ?S" using assms unfolding S by simp
  show ?thesis
  proof
    assume "1 < length (key_to_sources opts k)"
    then have "1 < card ?S" using len by simp
    then have "\<not> ?S \<subseteq> {s}"
      using card_mono[of "{s}" ?S] by auto
    then obtain s' where "s' \<in> ?S" "s' \<noteq> s" by blast
    then show "\<exists>s'. s' \<noteq> s \<and> (s', k) \<in> set (map fst opts)"
      unfolding S by blast
  next
    assume "\<exists>s'. s' \<noteq> s \<and> (s', k) \<in> set (map fst opts)"
    then obtain s' where "s' \<noteq> s" "s' \<in> ?S" unfolding S by blast
    then have "{s, s'} \<subseteq> ?S" "card {s, s'} = 2" using sin by auto
    then have "2 \<le> card ?S"
      using card_mono[OF fin, of "{s, s'}"] by simp
    then show "1 < length (key_to_sources opts k)" using len by simp
  qed
qed

lemma to_option_field_name_prefixed:
  "s \<noteq> [] \<Longrightarrow> to_option_field_name s k = to_option_field_name [] (s @ ''_'' @ k)"
  by (simp add: to_option_field_name_def)

lemma keys_finalize: "map fst (options (finalize c)) = map fst (options c)"
  by (simp add: finalize_def comp_def split: prod.splits)

lemma finalize_entry:
  assumes "lo \<in> set (options (finalize c))"
  shows "fst lo \<in> set (map fst (options c))
         \<and> field_name (snd lo)
             = to_option_field_name
                 (if 1 < length (key_to_sources (options c) (snd (fst lo))) then fst (fst lo) else [])
                 (snd (fst lo))"
  using assms by (force simp: finalize_def)

text \<open>
  C7. In the finalized registry every option has a non-empty shortened source. If its
  key is registered under another shortened source as well, anywhere in the registry,
  its field name is the converted text of its own shortened source, an underscore and
  the key, and it starts with that shortened source; if the key is registered under
  this one source only, its field name is the converted bare key.
\<close>

theorem option_field_name_prefixing:
  "\<forall>lo \<in> set (options (scan_packages h pkgs new_collector)).
     fst (fst lo) \<noteq> []
     \<and> field_name (snd lo)
         = (if \<exists>s'. s' \<noteq> fst (fst lo)
                  \<and> (s', snd (fst lo)) \<in> set (map fst (options (scan_packages h pkgs new_collector)))
            then to_option_field_name [] (fst (fst lo) @ ''_'' @ snd (fst lo))
            else to_option_field_name [] (snd (fst lo)))
     \<and> ((\<exists>s'. s' \<noteq> fst (fst lo)
                  \<and> (s', snd (fst lo)) \<in> set (map fst (options (scan_packages h pkgs new_collector))))
          \<longrightarrow> prefix (fst (fst lo)) (field_name (snd lo)))"
proof
  fix lo assume lo: "lo \<in> set (options (scan_packages h pkgs new_collector))"
  let ?c = "scan h pkgs new_collector"
  obtain s k where l: "fst lo = (s, k)" by (cases "fst lo")
  have fin: "scan_packages h pkgs new_collector = finalize ?c"
    by (simp add: scan_packages_def)
  have mem: "(s, k) \<in> set (map fst (options ?c))"
    and name: "field_name (snd lo)
      = to_option_field_name (if 1 < length (key_to_sources (options ?c) k) then s else []) k"
    using finalize_entry[of lo ?c] lo l unfolding fin by simp_all
  have "(s, k) \<in> set (walk_keys h pkgs)"
    using mem by (simp only: scan_keys set_first_seen)
  then have ok: "short_ok s" by (rule walk_keys_short)
  then have s: "s \<noteq> []" by (simp add: short_ok_def)
  have pre: "prefix s (to_option_field_name s k)"
    using ok by (rule to_option_field_name_has_prefix)
  have keys: "map fst (options (scan_packages h pkgs new_collector)) = map fst (options ?c)"
    unfolding fin by (rule keys_finalize)
  show "fst (fst lo) \<noteq> []
     \<and> field_name (snd lo)
         = (if \<exists>s'. s' \<noteq> fst (fst lo)
                  \<and> (s', snd (fst lo)) \<in> set (map fst (options (scan_packages h pkgs new_collector)))
            then to_option_field_name [] (fst (fst lo) @ ''_'' @ snd (fst lo))
            else to_option_field_name [] (snd (fst lo)))
     \<and> ((\<exists>s'. s' \<noteq> fst (fst lo)
                  \<and> (s', snd (fst lo)) \<in> set (map fst (options (scan_packages h pkgs new_collector))))
          \<longrightarrow> prefix (fst (fst lo)) (field_name (snd lo)))"
    unfolding keys l fst_conv snd_conv name several_sources[OF mem]
    using s pre by (auto simp: to_option_field_name_prefixed)
qed

theorem option_field_name_prefixing_witness:
  "map (\<lambda>lo. (fst lo, field_name (snd lo), field_number (snd lo)))
       (options (scan_packages annotated_store [annotated_pkg] new_collector))
     = [((''ui'', ''label''), ''ui_label'', 50000),
        ((''ui'', ''tooltip''), ''tooltip'', 50001),
        ((''genmodel'', ''label''), ''genmodel_label'', 50002)]"
proof -
  let ?opts = "options (scan_packages annotated_store [annotated_pkg] new_collector)"
  have keys: "map fst ?opts = [(''ui'', ''label''), (''ui'', ''tooltip''), (''genmodel'', ''label'')]"
    by code_simp
  have nums: "map (\<lambda>lo. field_number (snd lo)) ?opts = [50000, 50001, 50002]"
    by code_simp
  from keys obtain a b c where abc: "?opts = [a, b, c]"
    and fa: "fst a = (''ui'', ''label'')" and fb: "fst b = (''ui'', ''tooltip'')"
    and fc: "fst c = (''genmodel'', ''label'')"
    by (auto simp: map_eq_Cons_conv)
  have all: "\<forall>lo \<in> set ?opts.
     fst (fst lo) \<noteq> []
     \<and> field_name (snd lo)
         = (if \<exists>s'. s' \<noteq> fst (fst lo) \<and> (s', snd (fst lo)) \<in> set (map fst ?opts)
            then to_option_field_name [] (fst (fst lo) @ ''_'' @ snd (fst lo))
            else to_option_field_name [] (snd (fst lo)))
     \<and> ((\<exists>s'. s' \<noteq> fst (fst lo) \<and> (s', snd (fst lo)) \<in> set (map fst ?opts))
          \<longrightarrow> prefix (fst (fst lo)) (field_name (snd lo)))"
    by (rule option_field_name_prefixing)
  have ex_label: "\<exists>s'. s' \<noteq> ''ui'' \<and> (s', ''label'') \<in> set (map fst ?opts)"
    unfolding keys by (rule exI[of _ "''genmodel''"]) simp
  have ex_label2: "\<exists>s'. s' \<noteq> ''genmodel'' \<and> (s', ''label'') \<in> set (map fst ?opts)"
    unfolding keys by (rule exI[of _ "''ui''"]) simp
  have no_tooltip: "\<not> (\<exists>s'. s' \<noteq> ''ui'' \<and> (s', ''tooltip'') \<in> set (map fst ?opts))"
    unfolding keys by simp
  have na: "field_name (snd a) = to_option_field_name [] (''ui'' @ ''_'' @ ''label'')"
  proof -
    have "a \<in> set ?opts" using abc by simp
    from bspec[OF all this]
    have "field_name (snd a)
         = (if \<exists>s'. s' \<noteq> fst (fst a) \<and> (s', snd (fst a)) \<in> set (map fst ?opts)
            then to_option_field_name [] (fst (fst a) @ ''_'' @ snd (fst a))
            else to_option_field_name [] (snd (fst a)))"
      by (rule conjunct2[THEN conjunct1])
    then show ?thesis
      unfolding fa fst_conv snd_conv by (simp only: ex_label if_True)
  qed
  have nb: "field_name (snd b) = to_option_field_name [] ''tooltip''"
  proof -
    have "b \<in> set ?opts" using abc by simp
    from bspec[OF all this]
    have "field_name (snd b)
         = (if \<exists>s'. s' \<noteq> fst (fst b) \<and> (s', snd (fst b)) \<in> set (map fst ?opts)
            then to_option_field_name [] (fst (fst b) @ ''_'' @ snd (fst b))
            else to_option_field_name [] (snd (fst b)))"
      by (rule conjunct2[THEN conjunct1])
    then show ?thesis
      unfolding fb fst_conv snd_conv by (simp only: no_tooltip if_False)
  qed
  have nc: "field_name (snd c) = to_option_field_name [] (''genmodel'' @ ''_'' @ ''label'')"
  proof -
    have "c \<in> set ?opts" using abc by simp
    from bspec[OF all this]
    have "field_name (snd c)
         = (if \<exists>s'. s' \<noteq> fst (fst c) \<and> (s', snd (fst c)) \<in> set (map fst ?opts)
            then to_option_field_name [] (fst (fst c) @ ''_'' @ snd (fst c))
            else to_option_field_name [] (snd (fst c)))"
      by (rule conjunct2[THEN conjunct1])
    then show ?thesis
      unfolding fc fst_conv snd_conv by (simp only: ex_label2 if_True)
  qed
  have va: "to_option_field_name [] ''ui_label'' = ''ui_label''"
    and vb: "to_option_field_name [] ''tooltip'' = ''tooltip''"
    and vc: "to_option_field_name [] ''genmodel_label'' = ''genmodel_label''"
    by code_simp+
  show ?thesis
    using nums unfolding abc by (simp add: fa fb fc na nb nc va vb vc)
qed

section \<open>Properties of the enum rendering\<close>

lemma camel_unspecified: "camel_to_upper_snake ''UNSPECIFIED'' = ''UNSPECIFIED''"
  by code_simp

lemma list_ex_filter: "list_ex P xs \<longleftrightarrow> filter P xs \<noteq> []"
  by (induction xs) auto

text \<open>
  C5, amended. The value lines of a rendered enum are the source literals in their
  order, with one synthesized line of value 0 in front if and only if no source literal
  has value 0. So the output has at least one literal of value 0: the zero-valued
  literals of the source, however many, or the synthesized one. The synthesized literal
  is named after the enum, \<open><ENUM_NAME>_UNSPECIFIED\<close> in upper snake case, unless that
  form of the enum name is a prefix of \<open>UNSPECIFIED\<close>.
\<close>

theorem enum_zero_literals:
  "enum_entries e =
     (if list_ex (\<lambda>lit. lit_value lit = 0) (literals e)
      then map (\<lambda>lit. (to_enum_value_name (enum_name e) (lit_name lit), lit_value lit)) (literals e)
      else (to_enum_value_name (enum_name e) ''UNSPECIFIED'', 0)
           # map (\<lambda>lit. (to_enum_value_name (enum_name e) (lit_name lit), lit_value lit)) (literals e))
   \<and> zero_count (enum_entries e)
       = max 1 (length (filter (\<lambda>lit. lit_value lit = 0) (literals e)))
   \<and> (\<not> prefix (camel_to_upper_snake (enum_name e)) ''UNSPECIFIED''
        \<longrightarrow> to_enum_value_name (enum_name e) ''UNSPECIFIED''
            = camel_to_upper_snake (enum_name e) @ ''_UNSPECIFIED'')
   \<and> length (generate_enum e indent) = length (enum_entries e) + 2"
proof (intro conjI impI)
  show "enum_entries e =
     (if list_ex (\<lambda>lit. lit_value lit = 0) (literals e)
      then map (\<lambda>lit. (to_enum_value_name (enum_name e) (lit_name lit), lit_value lit)) (literals e)
      else (to_enum_value_name (enum_name e) ''UNSPECIFIED'', 0)
           # map (\<lambda>lit. (to_enum_value_name (enum_name e) (lit_name lit), lit_value lit)) (literals e))"
    by (simp add: enum_entries_def Let_def)
  have f: "filter (\<lambda>e. snd e = 0) (map (\<lambda>lit. (g lit, lit_value lit)) ls)
      = map (\<lambda>lit. (g lit, lit_value lit)) (filter (\<lambda>lit. lit_value lit = 0) ls)" for g and ls :: "EEnumLiteral list"
    by (induction ls) simp_all
  show "zero_count (enum_entries e)
       = max 1 (length (filter (\<lambda>lit. lit_value lit = 0) (literals e)))"
  proof (cases "list_ex (\<lambda>lit. lit_value lit = 0) (literals e)")
    case True
    then have "filter (\<lambda>lit. lit_value lit = 0) (literals e) \<noteq> []"
      by (simp add: list_ex_filter)
    then have "1 \<le> length (filter (\<lambda>lit. lit_value lit = 0) (literals e))"
      by (cases "filter (\<lambda>lit. lit_value lit = 0) (literals e)") simp_all
    then show ?thesis using True
      by (simp add: zero_count_def enum_entries_def Let_def f)
  next
    case False
    then have "filter (\<lambda>lit. lit_value lit = 0) (literals e) = []"
      by (simp add: list_ex_filter)
    then show ?thesis using False
      by (simp add: zero_count_def enum_entries_def Let_def f)
  qed
  show "to_enum_value_name (enum_name e) ''UNSPECIFIED''
            = camel_to_upper_snake (enum_name e) @ ''_UNSPECIFIED''"
    if "\<not> prefix (camel_to_upper_snake (enum_name e)) ''UNSPECIFIED''"
    using that by (simp add: to_enum_value_name_def Let_def camel_unspecified)
  show "length (generate_enum e indent) = length (enum_entries e) + 2"
    by (simp add: generate_enum_def Let_def)
qed

theorem enum_zero_literals_witness:
  "\<not> prefix (camel_to_upper_snake (enum_name status_enum)) ''UNSPECIFIED''
   \<and> enum_entries status_enum
       = [(''STATUS_UNSPECIFIED'', 0), (''STATUS_ACTIVE'', 1), (''STATUS_CLOSED'', 2)]
   \<and> generate_enum status_enum 0
       = [''enum Status {'', ''  STATUS_UNSPECIFIED = 0;'', ''  STATUS_ACTIVE = 1;'',
          ''  STATUS_CLOSED = 2;'', ''}'']"
proof -
  have p: "\<not> prefix (camel_to_upper_snake (enum_name status_enum)) ''UNSPECIFIED''"
    by code_simp
  have c: "camel_to_upper_snake (enum_name status_enum) = ''STATUS''"
    by code_simp
  have "to_enum_value_name (enum_name status_enum) ''UNSPECIFIED'' = ''STATUS_UNSPECIFIED''"
    using enum_zero_literals[of status_enum 0] p c by simp
  moreover have "enum_entries status_enum
       = [(to_enum_value_name (enum_name status_enum) ''UNSPECIFIED'', 0), (''STATUS_ACTIVE'', 1),
          (''STATUS_CLOSED'', 2)]"
    by code_simp
  moreover have "generate_enum status_enum 0
       = [''enum Status {'', ''  STATUS_UNSPECIFIED = 0;'', ''  STATUS_ACTIVE = 1;'',
          ''  STATUS_CLOSED = 2;'', ''}'']"
    by code_simp
  ultimately show ?thesis using p by simp
qed

text \<open>
  C5, as the claim states it, fails: an enum whose source has two literals of value 0
  is rendered with both, so the output has two literals of value 0, not exactly one.
  (And the synthesized literal of an enum named \<open>Un\<close> is \<open>UNSPECIFIED\<close>, without the
  enum's name in front.)
\<close>

theorem two_zero_literals_counterexample:
  "map lit_value (literals two_zero_enum) = [0, 0, 1]
   \<and> enum_entries two_zero_enum = [(''LEVEL_LOW'', 0), (''LEVEL_DEFAULT'', 0), (''LEVEL_HIGH'', 1)]
   \<and> zero_count (enum_entries two_zero_enum) = 2
   \<and> enum_entries (new_enum ''Un'' [(''On'', 1)]) = [(''UNSPECIFIED'', 0), (''UN_ON'', 1)]"
  by code_simp

end
